theory Spec2Isabelle
  imports Main "HOL-Library.Sublist" "HOL-Library.Multiset"
begin

section \<open>The path module used by the sources\<close>

text \<open>
  Both sources call Node's \<open>path\<close> module. The model follows its POSIX flavour:
  \<open>path.sep\<close> is the slash, \<open>path.isAbsolute\<close> looks at the first character,
  \<open>path.join\<close> concatenates its non-empty arguments with a slash and normalises the
  result (empty and \<open>.\<close> segments vanish, \<open>..\<close> removes the segment before it).
\<close>

definition path_sep :: char where
  "path_sep = CHR ''/''"

definition isAbsolute :: "string \<Rightarrow> bool" where
  "isAbsolute p = (case p of [] \<Rightarrow> False | c # _ \<Rightarrow> c = path_sep)"

text \<open>\<open>String.prototype.split\<close> on a one-character separator.\<close>

fun split_on :: "char \<Rightarrow> string \<Rightarrow> string list" where
  "split_on s [] = [[]]"
| "split_on s (c # cs) =
     (if c = s then [] # split_on s cs
      else (case split_on s cs of [] \<Rightarrow> [[c]] | w # ws \<Rightarrow> (c # w) # ws))"

text \<open>\<open>Array.prototype.join\<close> with a one-character separator.\<close>

fun join_with :: "char \<Rightarrow> string list \<Rightarrow> string" where
  "join_with s [] = []"
| "join_with s [w] = w"
| "join_with s (w # v # ws) = w @ s # join_with s (v # ws)"

text \<open>
  One segment of \<open>normalizeString\<close>: the segments kept so far are a stack whose top is
  the last element.
\<close>

definition norm_step :: "bool \<Rightarrow> string list \<Rightarrow> string \<Rightarrow> string list" where
  "norm_step allowAboveRoot acc seg =
     (if seg = [] \<or> seg = ''.'' then acc
      else if seg = ''..'' then
        (if acc \<noteq> [] \<and> last acc \<noteq> ''..'' then butlast acc
         else if allowAboveRoot then acc @ [''..''] else acc)
      else acc @ [seg])"

definition normalizeString :: "string \<Rightarrow> bool \<Rightarrow> string" where
  "normalizeString p allowAboveRoot =
     join_with path_sep (foldl (norm_step allowAboveRoot) [] (split_on path_sep p))"

definition normalize :: "string \<Rightarrow> string" where
  "normalize p =
     (if p = [] then ''.''
      else
        (let isAbs = isAbsolute p;
             trailingSeparator = (last p = path_sep);
             q = normalizeString p (\<not> isAbs)
         in if q = [] then (if isAbs then ''/'' else if trailingSeparator then ''./'' else ''.'')
            else (let q' = (if trailingSeparator then q @ ''/'' else q)
                  in if isAbs then path_sep # q' else q')))"

definition path_join :: "string \<Rightarrow> string \<Rightarrow> string" where
  "path_join a b =
     (if a = [] \<and> b = [] then ''.''
      else normalize (if a = [] then b else if b = [] then a else a @ path_sep # b))"

text \<open>What the segments kept by the normalisation have in common.\<close>

definition good_segs :: "string list \<Rightarrow> bool" where
  "good_segs ws = (\<forall>w\<in>set ws. w \<noteq> [] \<and> path_sep \<notin> set w)"

section \<open>DataToPersist: the change-set\<close>

text \<open>
  The change-set holds references to file, symlink and remove-path objects. The objects
  are mutable and may be shared (the same object can be listed twice, or be listed by two
  change-sets), so they live in a store, one address space per class, and the change-set
  lists their addresses.
  A file carries the fields the source reads: \<open>base\<close>, \<open>path\<close>, \<open>contents\<close> and
  \<open>override\<close>. The empty string stands for a missing property as well: the source only
  tests such a property for falsiness before using it.
\<close>

type_synonym ref = nat

record vinyl =
  base :: string
  path :: string
  contents :: string
  override :: bool

record symlink =
  src :: string
  dest :: string

record remove_path =
  rpath :: string
  removeItsDirIfEmpty :: bool

record store =
  vinyls :: "ref \<Rightarrow> vinyl"
  links :: "ref \<Rightarrow> symlink"
  rems :: "ref \<Rightarrow> remove_path"

record data_to_persist =
  files :: "ref list"
  symlinks :: "ref list"
  remove :: "ref list"

datatype dtp_error =
    EmptyFile
  | NoPathProperty
  | EmptyRemovePath
  | SymlinkSrcEmpty
  | SymlinkDestEmpty
  | DirectoryCollision string string
  | ExpectedAbsolute string
  | ExpectedRelative string

text \<open>The constructor.\<close>

definition new_data_to_persist :: data_to_persist where
  "new_data_to_persist = \<lparr>files = [], symlinks = [], remove = []\<rparr>"

text \<open>\<open>Array.prototype.findIndex\<close>, with \<open>None\<close> for \<open>-1\<close>.\<close>

fun findIndex :: "('a \<Rightarrow> bool) \<Rightarrow> 'a list \<Rightarrow> nat option" where
  "findIndex P [] = None"
| "findIndex P (x # xs) =
     (if P x then Some 0 else (case findIndex P xs of None \<Rightarrow> None | Some i \<Rightarrow> Some (Suc i)))"

text \<open>\<open>xs.splice(i, 1)\<close>.\<close>

definition splice1 :: "nat \<Rightarrow> 'a list \<Rightarrow> 'a list" where
  "splice1 i xs = take i xs @ drop (Suc i) xs"

text \<open>
  \<open>q.startsWith(p + path.sep)\<close>: the test of \<open>_throwForDirectoryCollision\<close>, which
  says that \<open>p\<close> is a directory above \<open>q\<close>.
\<close>

definition dir_prefix :: "string \<Rightarrow> string \<Rightarrow> bool" where
  "dir_prefix p q = prefix (p @ [path_sep]) q"

definition collides :: "string \<Rightarrow> string \<Rightarrow> bool" where
  "collides p q = (dir_prefix p q \<or> dir_prefix q p)"

definition throwForDirectoryCollision :: "store \<Rightarrow> ref \<Rightarrow> data_to_persist \<Rightarrow> dtp_error option" where
  "throwForDirectoryCollision h r d =
     (case find (\<lambda>f. dir_prefix (path (vinyls h r)) (path (vinyls h f))
                   \<or> dir_prefix (path (vinyls h f)) (path (vinyls h r))) (files d) of
        Some c \<Rightarrow> Some (DirectoryCollision (path (vinyls h r)) (path (vinyls h c)))
      | None \<Rightarrow> None)"

text \<open>
  Every method returns the error it threw, if any, together with the change-set as the
  call left it: a method that throws after it has changed \<open>this\<close> leaves the change
  behind.
\<close>

definition addFile :: "store \<Rightarrow> ref option \<Rightarrow> data_to_persist \<Rightarrow> dtp_error option \<times> data_to_persist" where
  "addFile h file d =
     (case file of
        None \<Rightarrow> (Some EmptyFile, d)
      | Some r \<Rightarrow>
          if path (vinyls h r) = [] then (Some NoPathProperty, d)
          else
            (case findIndex (\<lambda>e. path (vinyls h e) = path (vinyls h r)) (files d) of
               Some i \<Rightarrow>
                 if override (vinyls h r) then
                   (let d1 = d\<lparr>files := splice1 i (files d)\<rparr>
                    in case throwForDirectoryCollision h r d1 of
                         Some e \<Rightarrow> (Some e, d1)
                       | None \<Rightarrow> (None, d1\<lparr>files := files d1 @ [r]\<rparr>))
                 else (None, d)
             | None \<Rightarrow>
                 (case throwForDirectoryCollision h r d of
                    Some e \<Rightarrow> (Some e, d)
                  | None \<Rightarrow> (None, d\<lparr>files := files d @ [r]\<rparr>))))"

text \<open>\<open>forEach\<close> over the arguments: the first throw ends the loop.\<close>

fun addManyFiles :: "store \<Rightarrow> ref option list \<Rightarrow> data_to_persist \<Rightarrow> dtp_error option \<times> data_to_persist" where
  "addManyFiles h [] d = (None, d)"
| "addManyFiles h (f # fs) d =
     (case addFile h f d of
        (Some e, d') \<Rightarrow> (Some e, d')
      | (None, d') \<Rightarrow> addManyFiles h fs d')"

text \<open>\<open>includes\<close> compares object identities, that is addresses.\<close>

definition removePath :: "ref option \<Rightarrow> data_to_persist \<Rightarrow> dtp_error option \<times> data_to_persist" where
  "removePath pathToRemove d =
     (case pathToRemove of
        None \<Rightarrow> (Some EmptyRemovePath, d)
      | Some r \<Rightarrow> if r \<in> set (remove d) then (None, d) else (None, d\<lparr>remove := remove d @ [r]\<rparr>))"

fun removeManyPaths :: "ref option list \<Rightarrow> data_to_persist \<Rightarrow> dtp_error option \<times> data_to_persist" where
  "removeManyPaths [] d = (None, d)"
| "removeManyPaths (p # ps) d =
     (case removePath p d of
        (Some e, d') \<Rightarrow> (Some e, d')
      | (None, d') \<Rightarrow> removeManyPaths ps d')"

definition addSymlink :: "store \<Rightarrow> ref \<Rightarrow> data_to_persist \<Rightarrow> dtp_error option \<times> data_to_persist" where
  "addSymlink h s d =
     (if src (links h s) = [] then (Some SymlinkSrcEmpty, d)
      else if dest (links h s) = [] then (Some SymlinkDestEmpty, d)
      else (None, d\<lparr>symlinks := symlinks d @ [s]\<rparr>))"

fun addManySymlinks :: "store \<Rightarrow> ref list \<Rightarrow> data_to_persist \<Rightarrow> dtp_error option \<times> data_to_persist" where
  "addManySymlinks h [] d = (None, d)"
| "addManySymlinks h (s # ss) d =
     (case addSymlink h s d of
        (Some e, d') \<Rightarrow> (Some e, d')
      | (None, d') \<Rightarrow> addManySymlinks h ss d')"

text \<open>
  \<open>merge\<close> of another change-set (\<open>None\<close> for a missing argument). The argument is a
  change-set other than \<open>this\<close>, so its three arrays do not change during the loops.
\<close>

definition merge :: "store \<Rightarrow> data_to_persist option \<Rightarrow> data_to_persist \<Rightarrow> dtp_error option \<times> data_to_persist" where
  "merge h dataToPersist d =
     (case dataToPersist of
        None \<Rightarrow> (None, d)
      | Some other \<Rightarrow>
          (case addManyFiles h (map Some (files other)) d of
             (Some e, d1) \<Rightarrow> (Some e, d1)
           | (None, d1) \<Rightarrow>
               (case removeManyPaths (map Some (remove other)) d1 of
                  (Some e, d2) \<Rightarrow> (Some e, d2)
                | (None, d2) \<Rightarrow> addManySymlinks h (symlinks other) d2)))"

text \<open>
  What the building methods keep true of the pending files: no pending path is a
  directory above another one, no two pending files have the same path, and every
  pending file has a path.
\<close>

definition wf_files :: "store \<Rightarrow> ref list \<Rightarrow> bool" where
  "wf_files h fs =
     ((\<forall>f\<in>set fs. \<forall>g\<in>set fs. \<not> dir_prefix (path (vinyls h f)) (path (vinyls h g)))
      \<and> distinct (map (\<lambda>f. path (vinyls h f)) fs)
      \<and> (\<forall>f\<in>set fs. path (vinyls h f) \<noteq> []))"

text \<open>
  The change-sets that the constructor and the building methods produce, over a store
  whose objects are not changed in between. A call that throws still leaves a
  change-set behind, so its outcome counts as well.
\<close>

inductive reachable :: "store \<Rightarrow> data_to_persist \<Rightarrow> bool" for h :: store where
  r_new: "reachable h new_data_to_persist"
| r_addFile: "reachable h d \<Longrightarrow> reachable h (snd (addFile h file d))"
| r_addManyFiles: "reachable h d \<Longrightarrow> reachable h (snd (addManyFiles h fs d))"
| r_removePath: "reachable h d \<Longrightarrow> reachable h (snd (removePath p d))"
| r_removeManyPaths: "reachable h d \<Longrightarrow> reachable h (snd (removeManyPaths ps d))"
| r_addSymlink: "reachable h d \<Longrightarrow> reachable h (snd (addSymlink h s d))"
| r_addManySymlinks: "reachable h d \<Longrightarrow> reachable h (snd (addManySymlinks h ss d))"
| r_merge: "reachable h d \<Longrightarrow> reachable h (snd (merge h other d))"

text \<open>Sample objects: two files at \<open>bar\<close>, one at \<open>bar/foo\<close>.\<close>

definition file_bar :: vinyl where
  "file_bar = \<lparr>base = ''.'', path = ''bar'', contents = ''old'', override = False\<rparr>"

definition file_bar_foo :: vinyl where
  "file_bar_foo = \<lparr>base = ''.'', path = ''bar/foo'', contents = ''x'', override = False\<rparr>"

definition file_bar_new :: vinyl where
  "file_bar_new = \<lparr>base = ''.'', path = ''bar'', contents = ''new'', override = True\<rparr>"

definition store0 :: store where
  "store0 = \<lparr>vinyls = (\<lambda>_. file_bar)(1 := file_bar_foo, 2 := file_bar_new),
             links = (\<lambda>_. \<lparr>src = ''a'', dest = ''b''\<rparr>),
             rems = (\<lambda>_. \<lparr>rpath = ''c'', removeItsDirIfEmpty = False\<rparr>)\<rparr>"

subsection \<open>Rebasing: addBasePath\<close>

text \<open>
  \<open>forEach\<close> with a callback that may throw: the loop threads the state through the
  calls and stops at the first throw, keeping what the earlier calls did.
\<close>

fun forEach :: "('a \<Rightarrow> 's \<Rightarrow> 'e option \<times> 's) \<Rightarrow> 'a list \<Rightarrow> 's \<Rightarrow> 'e option \<times> 's" where
  "forEach f [] s = (None, s)"
| "forEach f (x # xs) s =
     (case f x s of
        (Some e, s') \<Rightarrow> (Some e, s')
      | (None, s') \<Rightarrow> forEach f xs s')"

definition assertRelative :: "string \<Rightarrow> dtp_error option" where
  "assertRelative pathToCheck =
     (if isAbsolute pathToCheck then Some (ExpectedRelative pathToCheck) else None)"

text \<open>
  The three callbacks of \<open>addBasePath\<close>. They change the objects, not the change-set,
  so the state they thread is the store. \<open>updatePaths\<close> belongs to the file class, which
  is not among the sources: it is a parameter, called with the new base.
\<close>

definition rebase_file :: "(string \<Rightarrow> vinyl \<Rightarrow> vinyl) \<Rightarrow> string \<Rightarrow> ref \<Rightarrow> store \<Rightarrow> dtp_error option \<times> store" where
  "rebase_file updatePaths basePath r h =
     (case assertRelative (base (vinyls h r)) of
        Some e \<Rightarrow> (Some e, h)
      | None \<Rightarrow>
          (None, h\<lparr>vinyls := (vinyls h)(r := updatePaths (path_join basePath (base (vinyls h r))) (vinyls h r))\<rparr>))"

definition rebase_symlink :: "string \<Rightarrow> ref \<Rightarrow> store \<Rightarrow> dtp_error option \<times> store" where
  "rebase_symlink basePath s h =
     (case assertRelative (src (links h s)) of
        Some e \<Rightarrow> (Some e, h)
      | None \<Rightarrow>
          (case assertRelative (dest (links h s)) of
             Some e \<Rightarrow> (Some e, h)
           | None \<Rightarrow>
               (None, h\<lparr>links := (links h)(s := \<lparr>src = path_join basePath (src (links h s)),
                                                  dest = path_join basePath (dest (links h s))\<rparr>)\<rparr>)))"

definition rebase_remove :: "string \<Rightarrow> ref \<Rightarrow> store \<Rightarrow> dtp_error option \<times> store" where
  "rebase_remove basePath p h =
     (case assertRelative (rpath (rems h p)) of
        Some e \<Rightarrow> (Some e, h)
      | None \<Rightarrow>
          (None, h\<lparr>rems := (rems h)(p := (rems h p)\<lparr>rpath := path_join basePath (rpath (rems h p))\<rparr>)\<rparr>))"

definition addBasePath :: "(string \<Rightarrow> vinyl \<Rightarrow> vinyl) \<Rightarrow> string \<Rightarrow> data_to_persist \<Rightarrow> store \<Rightarrow> dtp_error option \<times> store" where
  "addBasePath updatePaths basePath d h =
     (case forEach (rebase_file updatePaths basePath) (files d) h of
        (Some e, h1) \<Rightarrow> (Some e, h1)
      | (None, h1) \<Rightarrow>
          (case forEach (rebase_symlink basePath) (symlinks d) h1 of
             (Some e, h2) \<Rightarrow> (Some e, h2)
           | (None, h2) \<Rightarrow> forEach (rebase_remove basePath) (remove d) h2))"

text \<open>
  The store that a rebase without a throw leaves when no object is listed twice: every
  listed object rewritten once, every other object as it was.
\<close>

definition rebased :: "(string \<Rightarrow> vinyl \<Rightarrow> vinyl) \<Rightarrow> string \<Rightarrow> ref list \<Rightarrow> ref list \<Rightarrow> ref list \<Rightarrow> store \<Rightarrow> store" where
  "rebased updatePaths basePath fs ss ps h =
     \<lparr>vinyls = (\<lambda>r. if r \<in> set fs then updatePaths (path_join basePath (base (vinyls h r))) (vinyls h r)
                     else vinyls h r),
      links = (\<lambda>s. if s \<in> set ss then \<lparr>src = path_join basePath (src (links h s)),
                                        dest = path_join basePath (dest (links h s))\<rparr>
                    else links h s),
      rems = (\<lambda>p. if p \<in> set ps then (rems h p)\<lparr>rpath := path_join basePath (rpath (rems h p))\<rparr>
                   else rems h p)\<rparr>"

subsection \<open>Committing: persistAllToFS and persistAllToCapsule\<close>

text \<open>The first throw of a loop whose callback only checks.\<close>

fun first_error :: "('a \<Rightarrow> 'e option) \<Rightarrow> 'a list \<Rightarrow> 'e option" where
  "first_error f [] = None"
| "first_error f (x # xs) = (case f x of Some e \<Rightarrow> Some e | None \<Rightarrow> first_error f xs)"

definition validateAbsolutePath :: "string \<Rightarrow> dtp_error option" where
  "validateAbsolutePath pathToValidate =
     (if \<not> isAbsolute pathToValidate then Some (ExpectedAbsolute pathToValidate) else None)"

definition validate :: "store \<Rightarrow> data_to_persist \<Rightarrow> dtp_error option" where
  "validate h d =
     (case first_error (\<lambda>f. validateAbsolutePath (path (vinyls h f))) (files d) of
        Some e \<Rightarrow> Some e
      | None \<Rightarrow>
          (case first_error (\<lambda>p. validateAbsolutePath (rpath (rems h p))) (remove d) of
             Some e \<Rightarrow> Some e
           | None \<Rightarrow>
               first_error (\<lambda>s. case validateAbsolutePath (src (links h s)) of
                                   Some e \<Rightarrow> Some e
                                 | None \<Rightarrow> validateAbsolutePath (dest (links h s)))
                           (symlinks d)))"

text \<open>
  The work a commit hands to its target. A task is one asynchronous call: to the
  filesystem helpers and the objects' own \<open>write\<close> and \<open>persistToFS\<close> methods, or to
  the three methods of a capsule.
\<close>

datatype task =
    RemoveFilesAndEmptyDirsRecursively "string list"
  | RemovePathPersistToFS string
  | FileWrite string string
  | SymlinkWrite string string
  | CapsuleRemovePath string
  | CapsuleOutputFile string string
  | CapsuleSymlink string string

text \<open>
  A commit is a list of batches: the tasks of one batch are started together
  (\<open>Promise.all\<close> over a \<open>map\<close>) and the batch is awaited before the next statement runs.
  The tasks carry the paths the objects have when the commit starts. \<open>_log\<close> only
  reads the change-set and is left out.
\<close>

definition deletePathsFromFS :: "store \<Rightarrow> data_to_persist \<Rightarrow> task list list" where
  "deletePathsFromFS h d =
     (let pathWithRemoveItsDirIfEmptyEnabled =
            map (\<lambda>p. rpath (rems h p)) (filter (\<lambda>p. removeItsDirIfEmpty (rems h p)) (remove d));
          restPaths = filter (\<lambda>p. \<not> removeItsDirIfEmpty (rems h p)) (remove d)
      in (if pathWithRemoveItsDirIfEmptyEnabled \<noteq> []
          then [[RemoveFilesAndEmptyDirsRecursively pathWithRemoveItsDirIfEmptyEnabled]] else [])
         @ [map (\<lambda>p. RemovePathPersistToFS (rpath (rems h p))) restPaths])"

definition persistFilesToFS :: "store \<Rightarrow> data_to_persist \<Rightarrow> task list" where
  "persistFilesToFS h d = map (\<lambda>f. FileWrite (path (vinyls h f)) (contents (vinyls h f))) (files d)"

definition persistSymlinksToFS :: "store \<Rightarrow> data_to_persist \<Rightarrow> task list" where
  "persistSymlinksToFS h d = map (\<lambda>s. SymlinkWrite (src (links h s)) (dest (links h s))) (symlinks d)"

definition persistAllToFS :: "store \<Rightarrow> data_to_persist \<Rightarrow> dtp_error + task list list" where
  "persistAllToFS h d =
     (case validate h d of
        Some e \<Rightarrow> Inl e
      | None \<Rightarrow> Inr (deletePathsFromFS h d @ [persistFilesToFS h d] @ [persistSymlinksToFS h d]))"

definition persistAllToCapsule :: "store \<Rightarrow> data_to_persist \<Rightarrow> dtp_error + task list list" where
  "persistAllToCapsule h d =
     Inr [map (\<lambda>p. CapsuleRemovePath (rpath (rems h p))) (remove d),
          map (\<lambda>f. CapsuleOutputFile (path (vinyls h f)) (contents (vinyls h f))) (files d),
          map (\<lambda>s. CapsuleSymlink (src (links h s)) (dest (links h s))) (symlinks d)]"

text \<open>
  How the batches run. Starting a batch starts its tasks in order; they end in any order.
  The awaiting commit goes on when all have ended, or throws at the first task that fails,
  and then starts nothing more. A run is the sequence of these events up to the return or
  the throw of the commit; the flag tells whether it returned.
\<close>

datatype event = Start task | Done task | Failed task

inductive batch :: "task list \<Rightarrow> event list \<Rightarrow> bool \<Rightarrow> bool" where
  batch_done: "mset cs = mset (map Done ts) \<Longrightarrow> batch ts (map Start ts @ cs) True"
| batch_failed: "t \<in> set ts \<Longrightarrow> mset cs \<subseteq># mset (map Done (remove1 t ts))
                 \<Longrightarrow> batch ts (map Start ts @ cs @ [Failed t]) False"

inductive runs :: "task list list \<Rightarrow> event list \<Rightarrow> bool \<Rightarrow> bool" where
  runs_end: "runs [] [] True"
| runs_throw: "batch b tr False \<Longrightarrow> runs (b # bs) tr False"
| runs_next: "batch b tr True \<Longrightarrow> runs bs tr' ok \<Longrightarrow> runs (b # bs) (tr @ tr') ok"

datatype phase = Removing | Writing | Linking

fun phase_of :: "task \<Rightarrow> phase" where
  "phase_of (RemoveFilesAndEmptyDirsRecursively ps) = Removing"
| "phase_of (RemovePathPersistToFS p) = Removing"
| "phase_of (FileWrite p c) = Writing"
| "phase_of (SymlinkWrite s t) = Linking"
| "phase_of (CapsuleRemovePath p) = Removing"
| "phase_of (CapsuleOutputFile p c) = Writing"
| "phase_of (CapsuleSymlink s t) = Linking"

text \<open>
  The runs of a commit: a commit that throws in \<open>_validate\<close> has handed nothing to its
  target, so its only run is the empty one.
\<close>

definition commit_runs :: "dtp_error + task list list \<Rightarrow> event list \<Rightarrow> bool" where
  "commit_runs c tr = (case c of Inl e \<Rightarrow> tr = [] | Inr bs \<Rightarrow> runs bs tr True \<or> runs bs tr False)"

definition tasks_of :: "dtp_error + task list list \<Rightarrow> task list" where
  "tasks_of c = (case c of Inl e \<Rightarrow> [] | Inr bs \<Rightarrow> concat bs)"

text \<open>Sample objects for rebasing and committing.\<close>

definition set_base :: "string \<Rightarrow> vinyl \<Rightarrow> vinyl" where
  "set_base newBase f = f\<lparr>base := newBase\<rparr>"

definition store1 :: store where
  "store1 = \<lparr>vinyls = (\<lambda>_. \<lparr>base = ''/repo'', path = ''bar'', contents = ''x'', override = False\<rparr>)
                        (1 := \<lparr>base = ''lib'', path = ''lib/a.js'', contents = ''y'', override = False\<rparr>),
             links = (\<lambda>_. \<lparr>src = ''lib/a.js'', dest = ''/abs/link''\<rparr>)
                       (1 := \<lparr>src = ''lib/a.js'', dest = ''node_modules/a''\<rparr>),
             rems = (\<lambda>_. \<lparr>rpath = ''old'', removeItsDirIfEmpty = False\<rparr>)
                      (1 := \<lparr>rpath = ''/w/old'', removeItsDirIfEmpty = True\<rparr>)\<rparr>"

text \<open>A change-set that removes, writes and links the same absolute path.\<close>

definition store2 :: store where
  "store2 = \<lparr>vinyls = (\<lambda>_. \<lparr>base = ''/w'', path = ''/w/a'', contents = ''v2'', override = True\<rparr>),
             links = (\<lambda>_. \<lparr>src = ''/w/a'', dest = ''/w/l''\<rparr>),
             rems = (\<lambda>_. \<lparr>rpath = ''/w/a'', removeItsDirIfEmpty = False\<rparr>)\<rparr>"

definition changes2 :: data_to_persist where
  "changes2 = \<lparr>files = [0], symlinks = [0], remove = [0]\<rparr>"

text \<open>
  The shape of a commit: batches of remove tasks, then one batch of write tasks, then
  one batch of symlink tasks.
\<close>

definition phased :: "task list list \<Rightarrow> task list \<Rightarrow> task list \<Rightarrow> task list list \<Rightarrow> bool" where
  "phased R W L bs = (bs = R @ [W, L]
     \<and> (\<forall>b\<in>set R. \<forall>u\<in>set b. phase_of u = Removing)
     \<and> (\<forall>u\<in>set W. phase_of u = Writing) \<and> (\<forall>u\<in>set L. phase_of u = Linking))"

section \<open>addAction: tracking files as components\<close>

text \<open>
  \<open>addAction\<close> works on the bitmap (the Index), on ids and on the filesystem through
  classes and helpers that are not among the sources. The bitmap is the record the spec
  describes: component id strings with, for each, the files, the main file, the origin and
  the root directory. An id object is stood for by its \<open>toString()\<close>. Everything else is
  a field of the environment below, so that what is proved holds whatever these
  collaborators compute. The empty string stands for a missing string, as before.
\<close>

datatype origin = AUTHORED | IMPORTED | NESTED

record component_map_file =
  relativePath :: string
  test :: bool
  name :: string

record component_map =
  cm_files :: "component_map_file list"
  cm_mainFile :: string
  cm_origin :: origin
  cm_rootDir :: string

type_synonym bit_map = "(string \<times> component_map) list"

type_synonym bit_id = string

text \<open>What \<open>addOneComponent\<close> returns.\<close>

record component =
  componentId :: bit_id
  cfiles :: "component_map_file list"
  mainFile :: string

text \<open>What \<open>addToBitMap\<close> returns.\<close>

record added_component =
  added_id :: string
  added_files :: "component_map_file list"

datatype add_error =
    PathNotExists "string list"
  | NoFiles "string list"
  | EmptyDirectory
  | MissingComponentIdForImportedComponent string
  | IncorrectIdForImportedComponent string string
  | DuplicateIds "(string \<times> component list) list"
  | NestedDependency string
  | TypeError
  | AddComponentFailed string

text \<open>
  The environment. A lookup that returns \<open>undefined\<close> gives \<open>None\<close>.
  \<open>getComponent\<close> returns one of the bitmap's own entries, which the
  model names by its key; its last argument is \<open>includeSearchByBoxAndNameOnly\<close>.
  \<open>getComponentObjectOfFileByPath\<close> gives the first key of the object it returns.
  \<open>idFromDirectory\<close> and \<open>idFromFile\<close> are the ids that the source derives from a path
  and the namespace with \<open>path.resolve\<close>, \<open>path.parse\<close> and \<open>BitId.getValidBitId\<close>.
  \<open>directoryMatches\<close> is the glob of a directory after the ignore filter, \<open>getFiles\<close>
  the source's function of that name (a glob per pattern and file) and
  \<open>addMainFileToFiles\<close> the source's resolution of the main file, which may add a file.
\<close>

record env =
  BitId_parse :: "string \<Rightarrow> bit_id"
  toStringWithoutVersion :: "bit_id \<Rightarrow> string"
  toStringWithoutScopeAndVersion :: "bit_id \<Rightarrow> string"
  idFromDirectory :: "string \<Rightarrow> string \<Rightarrow> bit_id"
  idFromFile :: "string \<Rightarrow> string \<Rightarrow> bit_id"
  getExistingComponentId :: "bit_map \<Rightarrow> string \<Rightarrow> string option"
  getComponent :: "bit_map \<Rightarrow> string \<Rightarrow> bool \<Rightarrow> string option"
  getComponentObjectOfFileByPath :: "bit_map \<Rightarrow> string \<Rightarrow> string option"
  getComponentIdByPath :: "bit_map \<Rightarrow> string \<Rightarrow> string option"
  addComponent :: "bit_map \<Rightarrow> bit_id \<Rightarrow> component_map_file list \<Rightarrow> string \<Rightarrow> bool \<Rightarrow> string + bit_map"
  glob :: "string \<Rightarrow> string list"
  ignored :: "string \<Rightarrow> bool"
  existsSync :: "string \<Rightarrow> bool"
  isDir :: "string \<Rightarrow> bool"
  getMissingTestFiles :: "string list \<Rightarrow> string list"
  getFiles :: "string list \<Rightarrow> string list \<Rightarrow> string list"
  isAutoGeneratedFile :: "string \<Rightarrow> bool"
  path_relative :: "string \<Rightarrow> string \<Rightarrow> string"
  path_normalize :: "string \<Rightarrow> string"
  path_basename :: "string \<Rightarrow> string"
  pathNormalizeToLinux :: "string \<Rightarrow> string"
  getPathRelativeToProjectRoot :: "string \<Rightarrow> string"
  consumerPath :: string
  directoryMatches :: "string \<Rightarrow> string list"
  addMainFileToFiles :: "component_map_file list \<Rightarrow> string \<Rightarrow> component_map_file list \<times> string"

text \<open>
  An object used as a dictionary: keys in the order of their first insertion, which is
  the order in which JavaScript lists the keys that are not array indices. The keys
  here are paths and ids; one written as a decimal number would be listed before the
  others.
\<close>

fun obj_set :: "'k \<Rightarrow> 'v \<Rightarrow> ('k \<times> 'v) list \<Rightarrow> ('k \<times> 'v) list" where
  "obj_set k v [] = [(k, v)]"
| "obj_set k v ((k', v') # kvs) = (if k = k' then (k, v) # kvs else (k', v') # obj_set k v kvs)"

definition obj_delete :: "'k \<Rightarrow> ('k \<times> 'v) list \<Rightarrow> ('k \<times> 'v) list" where
  "obj_delete k kvs = filter (\<lambda>kv. fst kv \<noteq> k) kvs"

text \<open>\<open>groupBy\<close>: the elements under their keys, keys and elements in order.\<close>

fun groupBy :: "('a \<Rightarrow> 'k) \<Rightarrow> 'a list \<Rightarrow> ('k \<times> 'a list) list" where
  "groupBy f [] = []"
| "groupBy f (x # xs) =
     (f x, x # filter (\<lambda>y. f y = f x) xs) # groupBy f (filter (\<lambda>y. f y \<noteq> f x) xs)"

subsection \<open>Resolving the paths\<close>

definition validatePaths :: "env \<Rightarrow> string list \<Rightarrow> add_error + (string \<times> bool) list" where
  "validatePaths e fileArray =
     (case find (\<lambda>componentPath. \<not> existsSync e componentPath) fileArray of
        Some componentPath \<Rightarrow> Inl (PathNotExists [componentPath])
      | None \<Rightarrow> Inr (foldl (\<lambda>stats componentPath. obj_set componentPath (isDir e componentPath) stats)
                       [] fileArray))"

text \<open>The \<open>array-difference\<close> package: what is in one array and not in the other.\<close>

definition arrayDiff :: "'a list \<Rightarrow> 'a list \<Rightarrow> 'a list" where
  "arrayDiff a b = remdups (filter (\<lambda>x. x \<notin> set b) a @ filter (\<lambda>x. x \<notin> set a) b)"

text \<open>
  Lines 386 to 411 of \<open>addAction\<close>: from the arguments to \<open>componentPathsStats\<close>.
\<close>

definition resolveComponentPaths :: "env \<Rightarrow> string list \<Rightarrow> string \<Rightarrow> string list \<Rightarrow> add_error + (string \<times> bool) list" where
  "resolveComponentPaths e componentPaths id' tests =
     (let missingFiles = getMissingTestFiles e tests in
      if missingFiles \<noteq> [] then Inl (PathNotExists missingFiles)
      else
        (let resolvedComponentPathsWithoutGitIgnore = concat (map (glob e) componentPaths);
             resolvedComponentPathsWithGitIgnore =
               filter (\<lambda>p. \<not> ignored e p) resolvedComponentPathsWithoutGitIgnore;
             diff = arrayDiff resolvedComponentPathsWithGitIgnore resolvedComponentPathsWithoutGitIgnore
         in if tests \<noteq> [] \<and> id' \<noteq> [] \<and> resolvedComponentPathsWithoutGitIgnore = [] then
              validatePaths e (concat (map (glob e) tests))
            else if resolvedComponentPathsWithoutGitIgnore = [] then Inl (PathNotExists componentPaths)
            else if resolvedComponentPathsWithGitIgnore \<noteq> [] then
              validatePaths e resolvedComponentPathsWithGitIgnore
            else Inl (NoFiles diff)))"

subsection \<open>Building one component\<close>

text \<open>
  \<open>updateIdAccordingToExistingComponent\<close>. It also sets \<open>componentExists\<close> and
  \<open>foundId\<close>, which nothing reads afterwards; what it leaves is \<open>parsedId\<close>.
  Reading \<open>origin\<close> of a component that \<open>getComponent\<close> does not return is a TypeError.
\<close>

definition updateIdAccordingToExistingComponent :: "env \<Rightarrow> bit_map \<Rightarrow> string \<Rightarrow> add_error + bit_id" where
  "updateIdAccordingToExistingComponent e bitMap currentId =
     (case getExistingComponentId e bitMap currentId of
        None \<Rightarrow> Inr (BitId_parse e currentId)
      | Some existingComponentId \<Rightarrow>
          if existingComponentId = [] then Inr (BitId_parse e currentId)
          else
            (case getComponent e bitMap existingComponentId False of
               None \<Rightarrow> Inl TypeError
             | Some k \<Rightarrow>
                 (case map_of bitMap k of
                    None \<Rightarrow> Inl TypeError
                  | Some c \<Rightarrow>
                      if cm_origin c = NESTED then Inl (NestedDependency existingComponentId)
                      else Inr (BitId_parse e existingComponentId))))"

text \<open>\<open>unionBy(xs, ys, 'relativePath')\<close>: the first file of each relative path.\<close>

fun uniqBy :: "('a \<Rightarrow> 'k) \<Rightarrow> 'a list \<Rightarrow> 'a list" where
  "uniqBy f [] = []"
| "uniqBy f (x # xs) = x # uniqBy f (filter (\<lambda>y. f y \<noteq> f x) xs)"

definition mergeTestFilesWithFiles :: "env \<Rightarrow> string list \<Rightarrow> component_map_file list \<Rightarrow> component_map_file list" where
  "mergeTestFilesWithFiles e tests fs =
     (let testFilesArr = (if tests \<noteq> [] then getFiles e (map relativePath fs) tests else []);
          resolvedTestFiles =
            map (\<lambda>testFile. \<lparr>relativePath = testFile, test = True, name = path_basename e testFile\<rparr>)
              testFilesArr
      in uniqBy relativePath (resolvedTestFiles @ fs))"

text \<open>
  The callback over the paths runs in two parts. The first part of each call runs when
  the call is made, up to its first \<open>await\<close>: for a file path without \<open>parsedId\<close> it
  derives the id and looks it up. The rest runs later. \<open>parsedId\<close> is shared by the
  calls of one \<open>addOneComponent\<close>.
\<close>

definition path_started :: "env \<Rightarrow> bit_map \<Rightarrow> string \<Rightarrow> (string \<times> bool) \<Rightarrow> bit_id option \<Rightarrow> add_error option \<times> bit_id option" where
  "path_started e bitMap namespace stat parsedId =
     (if snd stat then (None, parsedId)
      else if parsedId = None then
        (case updateIdAccordingToExistingComponent e bitMap (idFromFile e namespace (fst stat)) of
           Inl err \<Rightarrow> (Some err, Some (idFromFile e namespace (fst stat)))
         | Inr pid \<Rightarrow> (None, Some pid))
      else (None, parsedId))"

definition path_finished :: "env \<Rightarrow> string \<Rightarrow> string \<Rightarrow> string list \<Rightarrow> (string \<times> bool) \<Rightarrow> bit_id option \<Rightarrow> (add_error + component) \<times> bit_id option" where
  "path_finished e main namespace tests stat parsedId =
     (if snd stat then
        (let filteredMatches = directoryMatches e (fst stat) in
         if filteredMatches = [] then (Inl EmptyDirectory, parsedId)
         else
           (let fs0 = map (\<lambda>m. \<lparr>relativePath = pathNormalizeToLinux e m, test = False,
                                  name = path_basename e m\<rparr>) filteredMatches;
                (fs, resolvedMainFile) =
                  addMainFileToFiles e (mergeTestFilesWithFiles e tests fs0) (pathNormalizeToLinux e main);
                pid = (case parsedId of None \<Rightarrow> idFromDirectory e namespace (fst stat) | Some p \<Rightarrow> p)
            in (Inr \<lparr>componentId = pid, cfiles = fs, mainFile = resolvedMainFile\<rparr>, Some pid)))
      else
        (let relativeFilePath = getPathRelativeToProjectRoot e (fst stat);
             fs0 = [\<lparr>relativePath = pathNormalizeToLinux e relativeFilePath, test = False,
                     name = path_basename e relativeFilePath\<rparr>];
             (fs, resolvedMainFile) = addMainFileToFiles e (mergeTestFilesWithFiles e tests fs0) main
         in (Inr \<lparr>componentId = (case parsedId of None \<Rightarrow> [] | Some pid \<Rightarrow> pid),
                  cfiles = fs, mainFile = resolvedMainFile\<rparr>, parsedId)))"

text \<open>Both loops stop at the first throw, which rejects \<open>Promise.all\<close>.\<close>

fun all_started :: "env \<Rightarrow> bit_map \<Rightarrow> string \<Rightarrow> (string \<times> bool) list \<Rightarrow> bit_id option \<Rightarrow> add_error option \<times> bit_id option" where
  "all_started e bitMap namespace [] parsedId = (None, parsedId)"
| "all_started e bitMap namespace (stat # stats) parsedId =
     (case path_started e bitMap namespace stat parsedId of
        (Some err, p) \<Rightarrow> (Some err, p)
      | (None, p) \<Rightarrow> all_started e bitMap namespace stats p)"

fun all_finished :: "env \<Rightarrow> string \<Rightarrow> string \<Rightarrow> string list \<Rightarrow> (string \<times> bool) list \<Rightarrow> bit_id option \<Rightarrow> add_error + component list" where
  "all_finished e main namespace tests [] parsedId = Inr []"
| "all_finished e main namespace tests (stat # stats) parsedId =
     (case path_finished e main namespace tests stat parsedId of
        (Inl err, p) \<Rightarrow> Inl err
      | (Inr c, p) \<Rightarrow>
          (case all_finished e main namespace tests stats p of
             Inl err \<Rightarrow> Inl err
           | Inr cs \<Rightarrow> Inr (c # cs)))"

text \<open>\<open>removeExcludedFiles\<close>, and the merge of several paths into one component.\<close>

definition removeExcludedFiles :: "env \<Rightarrow> component list \<Rightarrow> string list \<Rightarrow> component list" where
  "removeExcludedFiles e mapValues excludedList =
     (let resolvedExcludedFiles =
            getFiles e (concat (map (\<lambda>x. map relativePath (cfiles x)) mapValues)) excludedList
      in map (\<lambda>mapVal.
               if pathNormalizeToLinux e (mainFile mapVal) \<in> set resolvedExcludedFiles
               then mapVal\<lparr>cfiles := []\<rparr>
               else mapVal\<lparr>cfiles := filter (\<lambda>key. relativePath key \<notin> set resolvedExcludedFiles)
                                         (cfiles mapVal)\<rparr>) mapValues)"

text \<open>\<open>assignwith\<close> of the files of one relative path: per field the first truthy value.\<close>

definition first_truthy_string :: "string list \<Rightarrow> string" where
  "first_truthy_string xs = (case find (\<lambda>x. x \<noteq> []) xs of Some x \<Rightarrow> x | None \<Rightarrow> [])"

definition assign_files :: "component_map_file list \<Rightarrow> component_map_file" where
  "assign_files fs = \<lparr>relativePath = first_truthy_string (map relativePath fs),
                      test = (\<exists>f\<in>set fs. test f),
                      name = first_truthy_string (map name fs)\<rparr>"

definition merge_components :: "component list \<Rightarrow> add_error + component" where
  "merge_components mapValues0 =
     (case mapValues0 of
        [] \<Rightarrow> Inl TypeError
      | first # _ \<Rightarrow>
          (let mapValues = filter (\<lambda>mapVal. cfiles mapVal \<noteq> []) mapValues0 in
           case mapValues of
             [] \<Rightarrow> Inr \<lparr>componentId = componentId first, cfiles = [], mainFile = []\<rparr>
           | [only] \<Rightarrow> Inr only
           | hd' # _ \<Rightarrow>
               Inr \<lparr>componentId = componentId first,
                    cfiles = map (\<lambda>g. assign_files (snd g))
                               (groupBy relativePath (concat (map cfiles mapValues))),
                    mainFile = mainFile hd'\<rparr>))"

text \<open>
  \<open>addOneComponent\<close>, first part: the lookup of a supplied id, then the first parts of
  the calls for the paths. Second part: the rest of these calls, the excludes, the merge.
\<close>

definition addOneComponent_started :: "env \<Rightarrow> bit_map \<Rightarrow> string \<Rightarrow> string \<Rightarrow> (string \<times> bool) list \<Rightarrow> add_error option \<times> bit_id option" where
  "addOneComponent_started e bitMap id' namespace componentPathsStats =
     (if id' \<noteq> [] then
        (case updateIdAccordingToExistingComponent e bitMap id' of
           Inl err \<Rightarrow> (Some err, None)
         | Inr pid \<Rightarrow> all_started e bitMap namespace componentPathsStats (Some pid))
      else all_started e bitMap namespace componentPathsStats None)"

definition addOneComponent_finished :: "env \<Rightarrow> string \<Rightarrow> string \<Rightarrow> string list \<Rightarrow> string list option \<Rightarrow> (string \<times> bool) list \<Rightarrow> bit_id option \<Rightarrow> add_error + component" where
  "addOneComponent_finished e main namespace tests exclude componentPathsStats parsedId =
     (case all_finished e main namespace tests componentPathsStats parsedId of
        Inl err \<Rightarrow> Inl err
      | Inr mapValues \<Rightarrow>
          merge_components (case exclude of None \<Rightarrow> mapValues
                            | Some excludedList \<Rightarrow> removeExcludedFiles e mapValues excludedList))"

definition addOneComponent :: "env \<Rightarrow> bit_map \<Rightarrow> string \<Rightarrow> string \<Rightarrow> string \<Rightarrow> string list \<Rightarrow> string list option \<Rightarrow> (string \<times> bool) list \<Rightarrow> add_error + component" where
  "addOneComponent e bitMap id' main namespace tests exclude componentPathsStats =
     (case addOneComponent_started e bitMap id' namespace componentPathsStats of
        (Some err, p) \<Rightarrow> Inl err
      | (None, p) \<Rightarrow> addOneComponent_finished e main namespace tests exclude componentPathsStats p)"

subsection \<open>Reconciling a component with the bitmap\<close>

type_synonym warnings = "(string \<times> string list) list"

definition groupFilesByComponentId :: "env \<Rightarrow> bit_id \<Rightarrow> component_map_file list \<Rightarrow> bit_map \<Rightarrow> (string \<times> component_map_file list) list" where
  "groupFilesByComponentId e cid fs bitMap =
     map (\<lambda>g. (fst g, map snd (snd g)))
       (groupBy fst
          (map (\<lambda>f. (case getComponentObjectOfFileByPath e bitMap (relativePath f) of
                        Some bitMapComponentId \<Rightarrow>
                          if bitMapComponentId \<noteq> [] then bitMapComponentId else cid
                      | None \<Rightarrow> cid, f)) fs))"

definition addToBitMap :: "env \<Rightarrow> bool \<Rightarrow> bit_map \<Rightarrow> component \<Rightarrow> add_error + added_component \<times> bit_map" where
  "addToBitMap e override' bitMap c =
     (case addComponent e bitMap (componentId c) (cfiles c) (mainFile c) override' of
        Inl msg \<Rightarrow> Inl (AddComponentFailed msg)
      | Inr bitMap' \<Rightarrow>
          (case getComponent e bitMap' (componentId c) False of
             None \<Rightarrow> Inl TypeError
           | Some k \<Rightarrow>
               (case map_of bitMap' k of
                  None \<Rightarrow> Inl TypeError
                | Some cm \<Rightarrow> Inr (\<lparr>added_id = componentId c, added_files = cm_files cm\<rparr>, bitMap'))))"

text \<open>
  The callback over the files of a group whose id is in the bitmap. \<open>k\<close> is the key of
  the entry that \<open>getComponent\<close> returned; the callback reads the entry as it is now,
  since it may have written to one of its files before. The state is the bitmap, the
  warnings and the files returned so far.
\<close>

definition warn :: "string \<Rightarrow> string \<Rightarrow> warnings \<Rightarrow> warnings" where
  "warn k p w = (case map_of w k of Some ps \<Rightarrow> obj_set k (ps @ [p]) w | None \<Rightarrow> obj_set k [p] w)"

definition track_in_existing :: "env \<Rightarrow> string \<Rightarrow> string \<Rightarrow> string \<Rightarrow> component_map_file \<Rightarrow> bit_map \<times> warnings \<times> component_map_file list \<Rightarrow> add_error option \<times> (bit_map \<times> warnings \<times> component_map_file list)" where
  "track_in_existing e id' bitMapComponentId k f s =
     (case s of (bitMap, w, acc) \<Rightarrow>
        if isAutoGeneratedFile e (path_join (consumerPath e) (relativePath f)) then (None, s)
        else
          (case map_of bitMap k of
             None \<Rightarrow> (Some TypeError, s)
           | Some foundComponentFromBitMap \<Rightarrow>
               (let parsedBitId = BitId_parse e bitMapComponentId;
                    notImported =
                      (None, (bitMap,
                              if getComponentIdByPath e bitMap (relativePath f) \<noteq> Some parsedBitId
                              then warn bitMapComponentId (relativePath f) w else w,
                              acc @ [f]))
                in if bitMapComponentId \<noteq> [] \<and> cm_rootDir foundComponentFromBitMap \<noteq> [] then
                     if id' = [] then
                       (Some (MissingComponentIdForImportedComponent
                                (toStringWithoutVersion e parsedBitId)), s)
                     else if toStringWithoutScopeAndVersion e parsedBitId \<noteq> id'
                             \<and> toStringWithoutVersion e parsedBitId \<noteq> id' then
                       (Some (IncorrectIdForImportedComponent
                                (toStringWithoutVersion e parsedBitId) id'), s)
                     else
                       (let tempFile = path_relative e (cm_rootDir foundComponentFromBitMap)
                                         (relativePath f)
                        in case findIndex (\<lambda>file. relativePath file = tempFile)
                                  (cm_files foundComponentFromBitMap) of
                             Some j \<Rightarrow>
                               (let foundFile = (cm_files foundComponentFromBitMap ! j)
                                      \<lparr>relativePath :=
                                         path_join (cm_rootDir foundComponentFromBitMap)
                                           (relativePath (cm_files foundComponentFromBitMap ! j))\<rparr>
                                in (None,
                                    (obj_set k (foundComponentFromBitMap
                                                 \<lparr>cm_files := (cm_files foundComponentFromBitMap)
                                                                 [j := foundFile]\<rparr>) bitMap,
                                     w, acc @ [foundFile])))
                           | None \<Rightarrow> notImported)
                   else notImported)))"

text \<open>The callback over the files of a group whose id is not in the bitmap.\<close>

definition track_in_new :: "env \<Rightarrow> string \<Rightarrow> component_map_file \<Rightarrow> bit_map \<times> warnings \<times> component_map_file list \<Rightarrow> add_error option \<times> (bit_map \<times> warnings \<times> component_map_file list)" where
  "track_in_new e bitMapComponentId f s =
     (case s of (bitMap, w, acc) \<Rightarrow>
        (case getComponentIdByPath e bitMap (relativePath f) of
           None \<Rightarrow> (None, (bitMap, w, acc @ [f]))
         | Some bitMapid \<Rightarrow>
             if bitMapid = [] then (None, (bitMap, w, acc @ [f]))
             else if map_of w bitMapComponentId \<noteq> None then
               (case map_of w bitMapid of
                  None \<Rightarrow> (Some TypeError, s)
                | Some ps \<Rightarrow> (None, (bitMap, obj_set bitMapid (ps @ [relativePath f]) w, acc)))
             else (None, (bitMap, obj_set bitMapid [relativePath f] w, acc))))"

text \<open>
  The callback over the groups. The state is the bitmap, the warnings, the component
  (whose files and id the callback overwrites) and the components added so far.
\<close>

definition reconcile_group :: "env \<Rightarrow> string \<Rightarrow> bool \<Rightarrow> string \<times> component_map_file list \<Rightarrow> bit_map \<times> warnings \<times> component \<times> added_component list \<Rightarrow> add_error option \<times> (bit_map \<times> warnings \<times> component \<times> added_component list)" where
  "reconcile_group e id' override' g s =
     (case s of (bitMap, w, c, added) \<Rightarrow>
        (case getComponent e bitMap (fst g) True of
           Some k \<Rightarrow>
             (case forEach (track_in_existing e id' (fst g) k) (snd g) (bitMap, w, []) of
                (Some err, (bitMap1, w1, fs)) \<Rightarrow> (Some err, (bitMap1, w1, c, added))
              | (None, (bitMap1, w1, fs)) \<Rightarrow>
                  (let c1 = c\<lparr>cfiles := fs,
                               componentId :=
                                 (case getExistingComponentId e bitMap1 (fst g) of
                                    Some locatedIDFromBitMap \<Rightarrow>
                                      if locatedIDFromBitMap \<noteq> [] then BitId_parse e locatedIDFromBitMap
                                      else BitId_parse e (fst g)
                                  | None \<Rightarrow> BitId_parse e (fst g))\<rparr>
                   in case addToBitMap e override' bitMap1 c1 of
                        Inl err \<Rightarrow> (Some err, (bitMap1, w1, c1, added))
                      | Inr (a, bitMap2) \<Rightarrow> (None, (bitMap2, w1, c1, added @ [a]))))
         | None \<Rightarrow>
             (case forEach (track_in_new e (fst g)) (snd g) (bitMap, w, []) of
                (Some err, (bitMap1, w1, fs)) \<Rightarrow> (Some err, (bitMap1, w1, c, added))
              | (None, (bitMap1, w1, fs)) \<Rightarrow>
                  (let c1 = c\<lparr>cfiles := fs\<rparr>
                   in if fs = [] then (None, (bitMap1, w1, c1, added))
                      else
                        (case addToBitMap e override' bitMap1 c1 of
                           Inl err \<Rightarrow> (Some err, (bitMap1, w1, c1, added))
                         | Inr (a, bitMap2) \<Rightarrow> (None, (bitMap2, w1, c1, added @ [a])))))))"

definition addOrUpdateExistingComponentsInBitMap :: "env \<Rightarrow> string \<Rightarrow> bool \<Rightarrow> component \<Rightarrow> bit_map \<times> warnings \<Rightarrow> add_error option \<times> (bit_map \<times> warnings \<times> added_component list)" where
  "addOrUpdateExistingComponentsInBitMap e id' override' c s =
     (case s of (bitMap, w) \<Rightarrow>
        (case forEach (reconcile_group e id' override')
                (groupFilesByComponentId e (componentId c) (cfiles c) bitMap) (bitMap, w, c, []) of
           (err, (bitMap1, w1, c1, added)) \<Rightarrow> (err, (bitMap1, w1, added))))"

subsection \<open>The whole of addAction\<close>

definition validateNoDuplicateIds :: "component list \<Rightarrow> add_error option" where
  "validateNoDuplicateIds addComponents =
     (let duplicateIds = filter (\<lambda>g. length (snd g) > 1) (groupBy componentId addComponents)
      in if duplicateIds \<noteq> [] then Some (DuplicateIds duplicateIds) else None)"

text \<open>
  What a call of \<open>addAction\<close> comes to: it threw, with the bitmap in memory as the throw
  left it and nothing written, or it reached \<open>bitMap.write()\<close> and returned the added
  components and the warnings.
\<close>

datatype outcome =
    Failed add_error bit_map
  | Written bit_map "added_component list" warnings

fun persisted :: "outcome \<Rightarrow> bit_map option" where
  "persisted (Failed err bitMap) = None"
| "persisted (Written bitMap added w) = Some bitMap"

text \<open>\<open>Promise.all\<close> over calls that have all been started: the first throw, or all results.\<close>

fun all_results :: "('e + 'a) list \<Rightarrow> 'e + 'a list" where
  "all_results [] = Inr []"
| "all_results (Inl err # rs) = Inl err"
| "all_results (Inr x # rs) = (case all_results rs of Inl err \<Rightarrow> Inl err | Inr xs \<Rightarrow> Inr (x # xs))"

text \<open>The loop over the components built, each reconciled when it has files.\<close>

definition reconcile_component :: "env \<Rightarrow> string \<Rightarrow> bool \<Rightarrow> component \<Rightarrow> bit_map \<times> warnings \<times> added_component list \<Rightarrow> add_error option \<times> (bit_map \<times> warnings \<times> added_component list)" where
  "reconcile_component e id' override' c s =
     (case s of (bitMap, w, added) \<Rightarrow>
        if cfiles c = [] then (None, s)
        else
          (case addOrUpdateExistingComponentsInBitMap e id' override' c (bitMap, w) of
             (err, (bitMap1, w1, addedResult)) \<Rightarrow> (err, (bitMap1, w1, added @ addedResult))))"

definition write_all :: "add_error option \<times> (bit_map \<times> warnings \<times> added_component list) \<Rightarrow> outcome" where
  "write_all r =
     (case r of
        (Some err, (bitMap, w, added)) \<Rightarrow> Failed err bitMap
      | (None, (bitMap, w, added)) \<Rightarrow> Written bitMap added w)"

text \<open>
  The branch for several components: the paths that the test patterns match are taken
  out, one \<open>addOneComponent\<close> is started per path, and \<open>Promise.all\<close> awaits them. The
  first parts of all the calls run before any of them goes on.
\<close>

definition paths_without_tests :: "env \<Rightarrow> string list \<Rightarrow> (string \<times> bool) list \<Rightarrow> (string \<times> bool) list" where
  "paths_without_tests e tests componentPathsStats =
     (let testToRemove = (if tests \<noteq> [] then getFiles e (map fst componentPathsStats) tests else [])
      in foldl (\<lambda>stats t. obj_delete (path_normalize e t) stats) componentPathsStats testToRemove)"

definition build_components :: "env \<Rightarrow> bit_map \<Rightarrow> string \<Rightarrow> string \<Rightarrow> string list \<Rightarrow> string list option \<Rightarrow> (string \<times> bool) list \<Rightarrow> add_error + component list" where
  "build_components e bitMap main namespace tests exclude componentPathsStats =
     (let started = map (\<lambda>onePath. addOneComponent_started e bitMap [] namespace [onePath])
                      componentPathsStats
      in case find (\<lambda>r. fst r \<noteq> None) started of
           Some (Some err, p) \<Rightarrow> Inl err
         | _ \<Rightarrow>
             all_results
               (map (\<lambda>(onePath, r). addOneComponent_finished e main namespace tests exclude
                                       [onePath] (snd r))
                  (zip componentPathsStats started)))"

definition add_multiple :: "env \<Rightarrow> bit_map \<Rightarrow> string \<Rightarrow> string \<Rightarrow> string list \<Rightarrow> string list option \<Rightarrow> bool \<Rightarrow> (string \<times> bool) list \<Rightarrow> outcome" where
  "add_multiple e bitMap main namespace tests exclude override' componentPathsStats =
     (case build_components e bitMap main namespace tests exclude
             (paths_without_tests e tests componentPathsStats) of
        Inl err \<Rightarrow> Failed err bitMap
      | Inr addedComponents \<Rightarrow>
          (case validateNoDuplicateIds addedComponents of
             Some err \<Rightarrow> Failed err bitMap
           | None \<Rightarrow>
               write_all (forEach (reconcile_component e [] override') addedComponents
                            (bitMap, [], []))))"

definition add_one :: "env \<Rightarrow> bit_map \<Rightarrow> string \<Rightarrow> string \<Rightarrow> string \<Rightarrow> string list \<Rightarrow> string list option \<Rightarrow> bool \<Rightarrow> (string \<times> bool) list \<Rightarrow> outcome" where
  "add_one e bitMap id' main namespace tests exclude override' componentPathsStats =
     (case addOneComponent e bitMap id' main namespace tests exclude componentPathsStats of
        Inl err \<Rightarrow> Failed err bitMap
      | Inr addedOne \<Rightarrow> write_all (reconcile_component e id' override' addedOne (bitMap, [], [])))"

definition addAction :: "env \<Rightarrow> bit_map \<Rightarrow> string list \<Rightarrow> string \<Rightarrow> string \<Rightarrow> string \<Rightarrow> string list \<Rightarrow> string list option \<Rightarrow> bool \<Rightarrow> outcome" where
  "addAction e bitMap componentPaths id' main namespace tests exclude override' =
     (case resolveComponentPaths e componentPaths id' tests of
        Inl err \<Rightarrow> Failed err bitMap
      | Inr componentPathsStats \<Rightarrow>
          if length componentPathsStats > 1 \<and> id' = [] then
            add_multiple e bitMap main namespace tests exclude override' componentPathsStats
          else add_one e bitMap id' main namespace tests exclude override' componentPathsStats)"


subsection \<open>A sample project\<close>

text \<open>
  Modelled from the spec: the id class and the lookups of the bitmap are not among the
  sources. For the sample project an id is written \<open>scope/box/name@version\<close>, scope
  and version optional; a lookup by id matches an entry with the same id without version
  or, where the spec allows the search by box and name only, with the same box and name.
\<close>

definition without_version :: "string \<Rightarrow> string" where
  "without_version i = takeWhile (\<lambda>c. c \<noteq> CHR ''@'') i"

definition without_scope_and_version :: "string \<Rightarrow> string" where
  "without_scope_and_version i =
     (let segs = split_on path_sep (without_version i)
      in if length segs = 3 then join_with path_sep (tl segs) else without_version i)"

definition lookup_id :: "bit_map \<Rightarrow> string \<Rightarrow> bool \<Rightarrow> string option" where
  "lookup_id bitMap i byBoxAndName =
     map_option fst
       (find (\<lambda>kv. without_version (fst kv) = without_version i
                   \<or> (byBoxAndName
                       \<and> without_scope_and_version (fst kv) = without_scope_and_version i))
          bitMap)"

definition lookup_path :: "bit_map \<Rightarrow> string \<Rightarrow> string option" where
  "lookup_path bitMap p =
     map_option fst
       (find (\<lambda>kv. p \<in> set (map (\<lambda>f. path_join (cm_rootDir (snd kv)) (relativePath f))
                                (cm_files (snd kv)))) bitMap)"

definition upsert :: "bit_map \<Rightarrow> bit_id \<Rightarrow> component_map_file list \<Rightarrow> string \<Rightarrow> bool \<Rightarrow> string + bit_map" where
  "upsert bitMap i fs m ov =
     (case map_of bitMap i of
        None \<Rightarrow> Inr (obj_set i \<lparr>cm_files = fs, cm_mainFile = m, cm_origin = AUTHORED, cm_rootDir = []\<rparr> bitMap)
      | Some c \<Rightarrow>
          if cm_origin c = NESTED then Inl ''nested''
          else Inr (obj_set i (c\<lparr>cm_files := (if ov then fs else uniqBy relativePath (cm_files c @ fs))\<rparr>)
                      bitMap))"

text \<open>
  The sample environment: a working tree with the directory \<open>src/utils/is-string\<close>
  holding \<open>index.js\<close>, the file \<open>src/utils/is-string.js\<close>, the files \<open>src/a.js\<close>,
  \<open>lib/a.js\<close> and \<open>dist/a.js\<close>, the file \<open>index.js\<close> of an imported component and the
  test file \<open>test/a.spec.js\<close>; \<open>dist\<close> is ignored. A derived id is the namespace, or
  else the directory, and the name. The test and exclude patterns of the sample are
  plain paths, without placeholders for the parts of a file name: \<open>getFiles\<close> globs
  each of them once per file and keeps what is not ignored, once.
\<close>

definition sample_glob :: "string \<Rightarrow> string list" where
  "sample_glob p =
     (if p \<in> {''src/utils/is-string'', ''src/utils/is-string.js'', ''src/a.js'', ''lib/a.js'',
               ''test/a.spec.js'', ''dist/a.js'', ''components/utils/to-string/index.js''}
      then [p] else [])"

definition sample_id :: "string \<Rightarrow> string \<Rightarrow> string" where
  "sample_id namespace p =
     (let segs = split_on path_sep p
      in if namespace \<noteq> [] then namespace @ path_sep # last segs
         else join_with path_sep (drop (length segs - 2) segs))"

definition sample_env :: env where
  "sample_env =
     \<lparr>BitId_parse = (\<lambda>i. i),
      toStringWithoutVersion = without_version,
      toStringWithoutScopeAndVersion = without_scope_and_version,
      idFromDirectory = sample_id,
      idFromFile = (\<lambda>namespace p. takeWhile (\<lambda>c. c \<noteq> CHR ''.'') (sample_id namespace p)),
      getExistingComponentId = (\<lambda>bitMap i. lookup_id bitMap i True),
      getComponent = lookup_id,
      getComponentObjectOfFileByPath = lookup_path,
      getComponentIdByPath = lookup_path,
      addComponent = upsert,
      glob = sample_glob,
      ignored = (\<lambda>p. prefix ''dist/'' p),
      existsSync = (\<lambda>p. sample_glob p \<noteq> []),
      isDir = (\<lambda>p. p = ''src/utils/is-string''),
      getMissingTestFiles = (\<lambda>ts. filter (\<lambda>t. sample_glob t = []) ts),
      getFiles = (\<lambda>fs ts. uniqBy (\<lambda>p. p)
                            (concat (map (\<lambda>dsl. concat (map (\<lambda>f. filter (\<lambda>p. \<not> prefix ''dist/'' p)
                                                                 (sample_glob dsl)) fs)) ts))),
      isAutoGeneratedFile = (\<lambda>p. False),
      path_relative = (\<lambda>from to. if dir_prefix from to then drop (Suc (length from)) to else to),
      path_normalize = normalize,
      path_basename = (\<lambda>p. last (split_on path_sep p)),
      pathNormalizeToLinux = (\<lambda>p. p),
      getPathRelativeToProjectRoot = (\<lambda>p. p),
      consumerPath = ''/project'',
      directoryMatches = (\<lambda>p. if p = ''src/utils/is-string'' then [''src/utils/is-string/index.js''] else []),
      addMainFileToFiles = (\<lambda>fs m. (fs, m))\<rparr>"

text \<open>
  The sample bitmap: a nested dependency \<open>utils/is-string\<close>, an imported component
  \<open>utils/to-string\<close> and an authored component \<open>src/a\<close> that tracks \<open>src/a.js\<close>.
\<close>

definition sample_bitmap :: bit_map where
  "sample_bitmap =
     [(''scope/utils/is-string@0.0.1'',
       \<lparr>cm_files = [\<lparr>relativePath = ''index.js'', test = False, name = ''index.js''\<rparr>],
        cm_mainFile = ''index.js'', cm_origin = NESTED,
        cm_rootDir = ''components/.dependencies/utils/is-string/scope/0.0.1''\<rparr>),
      (''scope/utils/to-string@0.0.2'',
       \<lparr>cm_files = [\<lparr>relativePath = ''index.js'', test = False, name = ''index.js''\<rparr>],
        cm_mainFile = ''index.js'', cm_origin = IMPORTED,
        cm_rootDir = ''components/utils/to-string''\<rparr>),
      (''src/a'',
       \<lparr>cm_files = [\<lparr>relativePath = ''src/a.js'', test = False, name = ''a.js''\<rparr>],
        cm_mainFile = ''src/a.js'', cm_origin = AUTHORED, cm_rootDir = []\<rparr>)]"

text \<open>
  A second bitmap, in which the authored component \<open>src/a\<close> tracks both \<open>src/a.js\<close>
  and \<open>lib/a.js\<close>, and a second environment, in which the file \<open>index.js\<close> of the
  imported component is one of the files that bit generates itself.
\<close>

definition sample_bitmap_shared :: bit_map where
  "sample_bitmap_shared =
     [(''src/a'',
       \<lparr>cm_files = [\<lparr>relativePath = ''src/a.js'', test = False, name = ''a.js''\<rparr>,
                    \<lparr>relativePath = ''lib/a.js'', test = False, name = ''a.js''\<rparr>],
        cm_mainFile = ''src/a.js'', cm_origin = AUTHORED, cm_rootDir = []\<rparr>)]"


section \<open>Properties of the change-set\<close>

subsection \<open>Directories above a path\<close>

lemma split_on_not_Nil: "split_on s p \<noteq> []"
  by (induction p) (auto split: list.splits)

lemma split_on_append: "split_on s (p @ s # r) = split_on s p @ split_on s r"
proof (induction p)
  case Nil show ?case by simp
next
  case (Cons c p)
  show ?case
  proof (cases "c = s")
    case True with Cons show ?thesis by simp
  next
    case False
    obtain w ws where w: "split_on s p = w # ws"
      using split_on_not_Nil[of s p] by (cases "split_on s p") auto
    with Cons False show ?thesis by simp
  qed
qed

lemma join_with_split_on: "join_with s (split_on s p) = p"
proof (induction p)
  case Nil show ?case by simp
next
  case (Cons c p)
  obtain w ws where w: "split_on s p = w # ws"
    using split_on_not_Nil[of s p] by (cases "split_on s p") auto
  show ?case
  proof (cases "c = s")
    case True with Cons w show ?thesis by simp
  next
    case False
    with Cons w show ?thesis by (cases ws) simp_all
  qed
qed

lemma join_with_append:
  "ws \<noteq> [] \<Longrightarrow> vs \<noteq> [] \<Longrightarrow> join_with s (ws @ vs) = join_with s ws @ s # join_with s vs"
proof (induction s ws rule: join_with.induct)
  case (1 s) then show ?case by simp
next
  case (2 s w) then show ?case by (cases vs) simp_all
next
  case (3 s w v ws) then show ?case by simp
qed

text \<open>
  The test of the source says what it is meant to say: \<open>p\<close> followed by the separator
  starts \<open>q\<close> exactly when the segments of \<open>p\<close> are the first segments of \<open>q\<close> and
  \<open>q\<close> has more.
\<close>

lemma dir_prefix_segments:
  "dir_prefix p q \<longleftrightarrow> strict_prefix (split_on path_sep p) (split_on path_sep q)"
proof
  assume "dir_prefix p q"
  then obtain r where "q = p @ path_sep # r" by (auto simp: dir_prefix_def prefix_def)
  then have "split_on path_sep q = split_on path_sep p @ split_on path_sep r"
    by (simp add: split_on_append)
  then show "strict_prefix (split_on path_sep p) (split_on path_sep q)"
    using split_on_not_Nil[of path_sep r] by (simp add: strict_prefix_def)
next
  assume "strict_prefix (split_on path_sep p) (split_on path_sep q)"
  then obtain rest where rest: "split_on path_sep q = split_on path_sep p @ rest" "rest \<noteq> []"
    by (auto simp: strict_prefix_def prefix_def)
  have "q = join_with path_sep (split_on path_sep p @ rest)"
    using join_with_split_on[of path_sep q] rest(1) by simp
  also have "\<dots> = join_with path_sep (split_on path_sep p) @ path_sep # join_with path_sep rest"
    using split_on_not_Nil rest(2) by (rule join_with_append)
  finally have "q = p @ path_sep # join_with path_sep rest" by (simp add: join_with_split_on)
  then show "dir_prefix p q" by (simp add: dir_prefix_def prefix_def)
qed

subsection \<open>Adding files\<close>

lemma findIndex_Some:
  "findIndex P xs = Some i \<Longrightarrow> i < length xs \<and> P (xs ! i) \<and> (\<forall>j<i. \<not> P (xs ! j))"
proof (induction xs arbitrary: i)
  case Nil then show ?case by simp
next
  case (Cons x xs)
  show ?case
  proof (cases "P x")
    case True with Cons.prems show ?thesis by simp
  next
    case False
    with Cons.prems obtain k where k: "findIndex P xs = Some k" "i = Suc k"
      by (auto split: option.splits)
    from Cons.IH[OF k(1)] False k(2) show ?thesis
      by (auto simp: less_Suc_eq_0_disj)
  qed
qed

lemma findIndex_None: "findIndex P xs = None \<longleftrightarrow> (\<forall>x\<in>set xs. \<not> P x)"
  by (induction xs) (auto split: option.splits)

lemma set_splice1: "set (splice1 i xs) \<subseteq> set xs"
  unfolding splice1_def by (auto dest: in_set_takeD in_set_dropD)

lemma distinct_map_splice1:
  "distinct (map f xs) \<Longrightarrow> distinct (map f (splice1 i xs))"
  unfolding splice1_def
proof (induction xs arbitrary: i)
  case Nil then show ?case by simp
next
  case (Cons x xs)
  show ?case
  proof (cases i)
    case 0 with Cons.prems show ?thesis by simp
  next
    case (Suc k)
    have "f x \<notin> f ` set (take k xs)" "f x \<notin> f ` set (drop (Suc k) xs)"
      using Cons.prems by (auto dest: in_set_takeD in_set_dropD)
    with Cons.IH[of k] Cons.prems Suc show ?thesis by simp
  qed
qed

lemma splice1_nth_notin:
  assumes "distinct (map f xs)" "i < length xs"
  shows "\<forall>y\<in>set (splice1 i xs). f y \<noteq> f (xs ! i)"
proof -
  have "xs = take i xs @ xs ! i # drop (Suc i) xs"
    using assms(2) by (rule id_take_nth_drop)
  then have "distinct (map f (take i xs @ xs ! i # drop (Suc i) xs))"
    using assms(1) by simp
  then show ?thesis by (auto simp: splice1_def) (metis imageI)+
qed

lemma splice1_remove1:
  assumes "distinct xs" "i < length xs"
  shows "splice1 i xs = remove1 (xs ! i) xs"
proof -
  have xs: "xs = take i xs @ xs ! i # drop (Suc i) xs"
    using assms(2) by (rule id_take_nth_drop)
  have "xs ! i \<notin> set (take i xs)"
    using assms xs by (metis distinct_append disjoint_iff list.set_intros(1) not_distinct_conv_prefix append.assoc append_Cons self_append_conv2)
  then have "remove1 (xs ! i) (take i xs @ xs ! i # drop (Suc i) xs) = take i xs @ drop (Suc i) xs"
    by (simp add: remove1_append)
  with xs show ?thesis by (simp add: splice1_def)
qed

lemma not_dir_prefix_self: "\<not> dir_prefix p p"
  by (simp add: dir_prefix_def prefix_def)

lemma find_SomeD: "find P xs = Some x \<Longrightarrow> P x \<and> x \<in> set xs"
  by (auto simp: find_Some_iff)

lemma throwForDirectoryCollision_None:
  "throwForDirectoryCollision h r d = None \<longleftrightarrow>
     (\<forall>f\<in>set (files d). \<not> collides (path (vinyls h r)) (path (vinyls h f)))"
  by (auto simp: throwForDirectoryCollision_def collides_def find_None_iff split: option.splits dest: find_SomeD)

lemma throwForDirectoryCollision_Some:
  "throwForDirectoryCollision h r d = Some e \<Longrightarrow>
     \<exists>c\<in>set (files d). collides (path (vinyls h r)) (path (vinyls h c))
        \<and> e = DirectoryCollision (path (vinyls h r)) (path (vinyls h c))"
  by (auto simp: throwForDirectoryCollision_def collides_def split: option.splits dest: find_SomeD)

lemma wf_files_splice1: "wf_files h fs \<Longrightarrow> wf_files h (splice1 i fs)"
  using set_splice1[of i fs] distinct_map_splice1[of "\<lambda>f. path (vinyls h f)" fs i]
  by (auto simp: wf_files_def)

lemma wf_files_snoc:
  assumes "wf_files h fs" "path (vinyls h r) \<noteq> []"
    and "\<forall>f\<in>set fs. path (vinyls h f) \<noteq> path (vinyls h r)"
    and "\<forall>f\<in>set fs. \<not> collides (path (vinyls h r)) (path (vinyls h f))"
  shows "wf_files h (fs @ [r])"
  using assms by (auto simp: wf_files_def collides_def not_dir_prefix_self)

lemma wf_files_addFile:
  assumes "wf_files h (files d)"
  shows "wf_files h (files (snd (addFile h file d)))"
proof (cases "file")
  case None then show ?thesis using assms by (simp add: addFile_def)
next
  case (Some r)
  let ?p = "path (vinyls h r)"
  show ?thesis
  proof (cases "?p = []")
    case True then show ?thesis using assms Some by (simp add: addFile_def)
  next
    case ne: False
    show ?thesis
    proof (cases "findIndex (\<lambda>e. path (vinyls h e) = ?p) (files d)")
      case None
      then have nd: "\<forall>f\<in>set (files d). path (vinyls h f) \<noteq> ?p"
        by (simp add: findIndex_None)
      show ?thesis
      proof (cases "throwForDirectoryCollision h r d")
        case n2: None
        then have "wf_files h (files d @ [r])"
          using wf_files_snoc[OF assms ne nd] by (simp add: throwForDirectoryCollision_None)
        then show ?thesis using Some ne None n2 by (simp add: addFile_def)
      next
        case (Some e) then show ?thesis using \<open>file = Some r\<close> ne None assms by (simp add: addFile_def)
      qed
    next
      case (Some i)
      note fi = findIndex_Some[OF Some]
      let ?d1 = "d\<lparr>files := splice1 i (files d)\<rparr>"
      have wf1: "wf_files h (files ?d1)" using assms by (simp add: wf_files_splice1)
      show ?thesis
      proof (cases "override (vinyls h r)")
        case False then show ?thesis using \<open>file = Some r\<close> ne Some assms by (simp add: addFile_def)
      next
        case True
        have "distinct (map (\<lambda>f. path (vinyls h f)) (files d))" using assms by (simp add: wf_files_def)
        from splice1_nth_notin[OF this, of i] fi
        have nd: "\<forall>f\<in>set (files ?d1). path (vinyls h f) \<noteq> ?p" by simp
        show ?thesis
        proof (cases "throwForDirectoryCollision h r ?d1")
          case n2: None
          then have "wf_files h (files ?d1 @ [r])"
            using wf_files_snoc[OF wf1 ne nd] by (simp add: throwForDirectoryCollision_None)
          then show ?thesis using \<open>file = Some r\<close> ne Some True n2 by (simp add: addFile_def)
        next
          case s2: (Some e)
          then show ?thesis using \<open>file = Some r\<close> ne Some True wf1 by (simp add: addFile_def)
        qed
      qed
    qed
  qed
qed

lemma wf_files_addManyFiles:
  "wf_files h (files d) \<Longrightarrow> wf_files h (files (snd (addManyFiles h fs d)))"
proof (induction fs arbitrary: d)
  case Nil then show ?case by simp
next
  case (Cons f fs)
  from wf_files_addFile[OF Cons.prems, of f]
  have wf: "wf_files h (files (snd (addFile h f d)))" .
  show ?case
  proof (cases "addFile h f d")
    case (Pair eo d')
    with wf Cons.IH[of d'] show ?thesis by (cases eo) auto
  qed
qed

lemma files_removePath: "files (snd (removePath p d)) = files d"
  by (simp add: removePath_def split: option.splits)

lemma files_removeManyPaths: "files (snd (removeManyPaths ps d)) = files d"
proof (induction ps arbitrary: d)
  case Nil then show ?case by simp
next
  case (Cons p ps)
  show ?case
  proof (cases "removePath p d")
    case (Pair eo d')
    with files_removePath[of p d] Cons.IH[of d'] show ?thesis by (cases eo) auto
  qed
qed

lemma files_addSymlink: "files (snd (addSymlink h s d)) = files d"
  by (simp add: addSymlink_def)

lemma files_addManySymlinks: "files (snd (addManySymlinks h ss d)) = files d"
proof (induction ss arbitrary: d)
  case Nil then show ?case by simp
next
  case (Cons s ss)
  show ?case
  proof (cases "addSymlink h s d")
    case (Pair eo d')
    with files_addSymlink[of h s d] Cons.IH[of d'] show ?thesis by (cases eo) auto
  qed
qed

lemma wf_files_merge:
  assumes "wf_files h (files d)"
  shows "wf_files h (files (snd (merge h other d)))"
proof (cases other)
  case None then show ?thesis using assms by (simp add: merge_def)
next
  case (Some x)
  obtain e1 d1 where a: "addManyFiles h (map Some (files x)) d = (e1, d1)" by force
  with wf_files_addManyFiles[OF assms, of "map Some (files x)"] have w1: "wf_files h (files d1)" by simp
  obtain e2 d2 where b: "removeManyPaths (map Some (remove x)) d1 = (e2, d2)" by force
  with files_removeManyPaths[of "map Some (remove x)" d1] have f2: "files d2 = files d1" by simp
  show ?thesis
    using Some a b w1 f2 files_addManySymlinks[of h "symlinks x" d2]
    by (cases e1; cases e2) (simp_all add: merge_def)
qed

lemma reachable_wf_files: "reachable h d \<Longrightarrow> wf_files h (files d)"
proof (induction rule: reachable.induct)
  case r_new show ?case by (simp add: wf_files_def new_data_to_persist_def)
qed (simp_all add: wf_files_addFile wf_files_addManyFiles wf_files_merge
       files_removePath files_removeManyPaths files_addSymlink files_addManySymlinks)

lemma pending_no_collision:
  assumes "wf_files h fs" "e \<in> set fs" "g \<in> set fs"
  shows "\<not> collides (path (vinyls h e)) (path (vinyls h g))"
  using assms by (auto simp: wf_files_def collides_def)

text \<open>
  Claim C1. On every change-set that the constructor and the building methods (addFile,
  addManyFiles, removePath, removeManyPaths, addSymlink, addManySymlinks, merge) produce,
  no pending file path is a directory above another pending file path; and adding a file
  (one that has a path) whose path is a directory above a pending path, or below one,
  throws the collision error, whichever of the two was there first, and leaves the
  change-set as it was.
\<close>

theorem C1_directory_collision:
  assumes "reachable h d"
  shows "(\<forall>f\<in>set (files d). \<forall>g\<in>set (files d).
            \<not> dir_prefix (path (vinyls h f)) (path (vinyls h g)))
       \<and> (\<forall>r. path (vinyls h r) \<noteq> []
              \<and> (\<exists>g\<in>set (files d). dir_prefix (path (vinyls h r)) (path (vinyls h g))
                                    \<or> dir_prefix (path (vinyls h g)) (path (vinyls h r)))
            \<longrightarrow> (\<exists>c\<in>set (files d).
                   (dir_prefix (path (vinyls h r)) (path (vinyls h c))
                     \<or> dir_prefix (path (vinyls h c)) (path (vinyls h r)))
                   \<and> addFile h (Some r) d
                       = (Some (DirectoryCollision (path (vinyls h r)) (path (vinyls h c))), d)))"
proof -
  have wf: "wf_files h (files d)" using assms by (rule reachable_wf_files)
  have inv: "\<forall>f\<in>set (files d). \<forall>g\<in>set (files d).
            \<not> dir_prefix (path (vinyls h f)) (path (vinyls h g))"
    using wf by (simp add: wf_files_def)
  have rej: "\<exists>c\<in>set (files d).
                   (dir_prefix (path (vinyls h r)) (path (vinyls h c))
                     \<or> dir_prefix (path (vinyls h c)) (path (vinyls h r)))
                   \<and> addFile h (Some r) d
                       = (Some (DirectoryCollision (path (vinyls h r)) (path (vinyls h c))), d)"
    if ne: "path (vinyls h r) \<noteq> []"
      and col: "\<exists>g\<in>set (files d). dir_prefix (path (vinyls h r)) (path (vinyls h g))
                                    \<or> dir_prefix (path (vinyls h g)) (path (vinyls h r))"
    for r
  proof -
    from col obtain g where g: "g \<in> set (files d)"
      "collides (path (vinyls h r)) (path (vinyls h g))"
      by (auto simp: collides_def)
    have no_same: "findIndex (\<lambda>e. path (vinyls h e) = path (vinyls h r)) (files d) = None"
    proof (rule ccontr)
      assume "findIndex (\<lambda>e. path (vinyls h e) = path (vinyls h r)) (files d) \<noteq> None"
      then obtain i where "findIndex (\<lambda>e. path (vinyls h e) = path (vinyls h r)) (files d) = Some i"
        by auto
      from findIndex_Some[OF this] have "files d ! i \<in> set (files d)"
        "path (vinyls h (files d ! i)) = path (vinyls h r)" by auto
      with pending_no_collision[OF wf this(1) g(1)] g(2) show False by simp
    qed
    have "throwForDirectoryCollision h r d \<noteq> None"
      using g by (auto simp: throwForDirectoryCollision_None)
    then obtain e where e: "throwForDirectoryCollision h r d = Some e" by auto
    from throwForDirectoryCollision_Some[OF e] obtain c where c: "c \<in> set (files d)"
      "collides (path (vinyls h r)) (path (vinyls h c))"
      "e = DirectoryCollision (path (vinyls h r)) (path (vinyls h c))" by auto
    have "addFile h (Some r) d = (Some e, d)"
      using ne no_same e by (simp add: addFile_def)
    with c show ?thesis by (auto simp: collides_def)
  qed
  from inv rej show ?thesis by blast
qed

lemma store0_simps:
  "vinyls store0 0 = file_bar" "vinyls store0 1 = file_bar_foo" "vinyls store0 2 = file_bar_new"
  "vinyls store0 (Suc 0) = file_bar_foo"
  by (simp_all add: store0_def)

lemma dir_prefix_bar: "dir_prefix ''bar'' ''bar/foo''"
  by (simp add: dir_prefix_def path_sep_def)

text \<open>Claim C1 at \<open>bar\<close> and \<open>bar/foo\<close>, in both orders.\<close>

theorem C1_directory_collision_witness:
  "addFile store0 (Some 1) (snd (addFile store0 (Some 0) new_data_to_persist))
     = (Some (DirectoryCollision ''bar/foo'' ''bar''), \<lparr>files = [0], symlinks = [], remove = []\<rparr>)
   \<and> addFile store0 (Some 0) (snd (addFile store0 (Some 1) new_data_to_persist))
     = (Some (DirectoryCollision ''bar'' ''bar/foo''), \<lparr>files = [1], symlinks = [], remove = []\<rparr>)"
proof -
  let ?d0 = "snd (addFile store0 (Some 0) new_data_to_persist)"
  let ?d1 = "snd (addFile store0 (Some 1) new_data_to_persist)"
  have d0: "?d0 = \<lparr>files = [0], symlinks = [], remove = []\<rparr>"
    by (simp add: addFile_def new_data_to_persist_def store0_simps file_bar_def
        throwForDirectoryCollision_def)
  have d1: "?d1 = \<lparr>files = [1], symlinks = [], remove = []\<rparr>"
    by (simp add: addFile_def new_data_to_persist_def store0_simps file_bar_foo_def
        throwForDirectoryCollision_def)
  have r0: "reachable store0 ?d0" by (rule r_addFile[OF r_new])
  have r1: "reachable store0 ?d1" by (rule r_addFile[OF r_new])
  have p0: "path (vinyls store0 0) = ''bar''" and p1: "path (vinyls store0 1) = ''bar/foo''"
    by (simp_all add: store0_simps file_bar_def file_bar_foo_def)
  have "path (vinyls store0 1) \<noteq> []
     \<and> (\<exists>g\<in>set (files ?d0). dir_prefix (path (vinyls store0 1)) (path (vinyls store0 g))
                              \<or> dir_prefix (path (vinyls store0 g)) (path (vinyls store0 1)))"
    unfolding d0 p1 using dir_prefix_bar p0 by simp
  with C1_directory_collision[OF r0] obtain c where "c \<in> set (files ?d0)"
    "addFile store0 (Some 1) ?d0
       = (Some (DirectoryCollision (path (vinyls store0 1)) (path (vinyls store0 c))), ?d0)"
    by blast
  then have a: "addFile store0 (Some 1) ?d0 = (Some (DirectoryCollision ''bar/foo'' ''bar''), ?d0)"
    unfolding d0 using p0 p1 by simp
  have "path (vinyls store0 0) \<noteq> []
     \<and> (\<exists>g\<in>set (files ?d1). dir_prefix (path (vinyls store0 0)) (path (vinyls store0 g))
                              \<or> dir_prefix (path (vinyls store0 g)) (path (vinyls store0 0)))"
    unfolding d1 p0 using dir_prefix_bar p1 by simp
  with C1_directory_collision[OF r1] obtain c' where "c' \<in> set (files ?d1)"
    "addFile store0 (Some 0) ?d1
       = (Some (DirectoryCollision (path (vinyls store0 0)) (path (vinyls store0 c'))), ?d1)"
    by blast
  then have b: "addFile store0 (Some 0) ?d1 = (Some (DirectoryCollision ''bar'' ''bar/foo''), ?d1)"
    unfolding d1 using p0 p1 by simp
  from a b d0 d1 show ?thesis by simp
qed

text \<open>
  Claim C2. On every such change-set with a pending file \<open>e\<close> for a path: adding a
  second file for the same path without \<open>override\<close> returns without an error and
  leaves the change-set, and so the pending entry, as it was; adding it with
  \<open>override\<close> removes \<open>e\<close> and appends the new file, which is then the only pending
  entry for the path. The objects themselves are not touched: addFile does not write to
  the store.
\<close>

theorem C2_same_path:
  assumes "reachable h d" and "e \<in> set (files d)"
    and "path (vinyls h e) = path (vinyls h r)"
  shows "(\<not> override (vinyls h r) \<longrightarrow> addFile h (Some r) d = (None, d))
       \<and> (override (vinyls h r) \<longrightarrow>
            addFile h (Some r) d = (None, d\<lparr>files := remove1 e (files d) @ [r]\<rparr>)
            \<and> (\<forall>f\<in>set (remove1 e (files d)). path (vinyls h f) \<noteq> path (vinyls h r)))"
proof -
  let ?p = "path (vinyls h r)"
  have wf: "wf_files h (files d)" using assms(1) by (rule reachable_wf_files)
  have ne: "?p \<noteq> []" using wf assms(2,3) by (auto simp: wf_files_def)
  have dp: "distinct (map (\<lambda>f. path (vinyls h f)) (files d))" using wf by (simp add: wf_files_def)
  then have df: "distinct (files d)" by (simp add: distinct_map)
  have "findIndex (\<lambda>e. path (vinyls h e) = ?p) (files d) \<noteq> None"
    using assms(2,3) by (auto simp: findIndex_None)
  then obtain i where i: "findIndex (\<lambda>e. path (vinyls h e) = ?p) (files d) = Some i" by auto
  note fi = findIndex_Some[OF i]
  have "inj_on (\<lambda>f. path (vinyls h f)) (set (files d))" using dp by (simp add: distinct_map)
  then have ei: "files d ! i = e"
    using fi assms(2,3) by (auto simp: inj_on_def)
  have sp: "splice1 i (files d) = remove1 e (files d)"
    using splice1_remove1[OF df, of i] fi ei by simp
  have rest: "\<forall>f\<in>set (remove1 e (files d)). path (vinyls h f) \<noteq> ?p"
    using splice1_nth_notin[OF dp, of i] fi sp by simp
  have "\<forall>f\<in>set (remove1 e (files d)). \<not> collides ?p (path (vinyls h f))"
  proof
    fix f assume "f \<in> set (remove1 e (files d))"
    then have "f \<in> set (files d)" using set_remove1_subset[of e "files d"] by blast
    from pending_no_collision[OF wf assms(2) this] assms(3)
    show "\<not> collides ?p (path (vinyls h f))" by simp
  qed
  then have nc: "throwForDirectoryCollision h r (d\<lparr>files := remove1 e (files d)\<rparr>) = None"
    by (simp add: throwForDirectoryCollision_None)
  show ?thesis using ne i sp nc rest by (simp add: addFile_def)
qed

text \<open>Claim C2 at a pending \<open>bar\<close>, re-added without and with \<open>override\<close>.\<close>

theorem C2_same_path_witness:
  "addFile store0 (Some 0) \<lparr>files = [0], symlinks = [], remove = []\<rparr>
     = (None, \<lparr>files = [0], symlinks = [], remove = []\<rparr>)
   \<and> addFile store0 (Some 2) \<lparr>files = [0], symlinks = [], remove = []\<rparr>
     = (None, \<lparr>files = [2], symlinks = [], remove = []\<rparr>)
   \<and> contents (vinyls store0 0) = ''old'' \<and> contents (vinyls store0 2) = ''new''"
proof -
  let ?d0 = "snd (addFile store0 (Some 0) new_data_to_persist)"
  have d0: "?d0 = \<lparr>files = [0], symlinks = [], remove = []\<rparr>"
    by (simp add: addFile_def new_data_to_persist_def store0_simps file_bar_def
        throwForDirectoryCollision_def)
  have r0: "reachable store0 ?d0" by (rule r_addFile[OF r_new])
  have m: "0 \<in> set (files ?d0)" by (simp add: d0)
  have a: "addFile store0 (Some 0) ?d0 = (None, ?d0)"
    using C2_same_path[OF r0 m, of 0] by (simp add: store0_simps file_bar_def)
  have b: "addFile store0 (Some 2) ?d0 = (None, ?d0\<lparr>files := remove1 0 (files ?d0) @ [2]\<rparr>)"
    using C2_same_path[OF r0 m, of 2] by (simp add: store0_simps file_bar_def file_bar_new_def)
  from a b show ?thesis by (simp add: d0 store0_simps file_bar_def file_bar_new_def)
qed

subsection \<open>Absolute paths and joins\<close>

lemma split_on_no_sep: "w \<in> set (split_on s p) \<Longrightarrow> s \<notin> set w"
proof (induction p arbitrary: w)
  case Nil then show ?case by simp
next
  case (Cons c cs)
  show ?case
  proof (cases "c = s")
    case True with Cons show ?thesis by auto
  next
    case False
    show ?thesis
    proof (cases "split_on s cs")
      case Nil with Cons.prems False show ?thesis by simp
    next
      case (Cons v vs)
      with Cons.prems False Cons.IH[of v] Cons.IH[of w] show ?thesis by auto
    qed
  qed
qed

lemma good_segs_norm_step:
  "good_segs acc \<Longrightarrow> path_sep \<notin> set seg \<Longrightarrow> good_segs (norm_step a acc seg)"
  by (auto simp: good_segs_def norm_step_def path_sep_def dest: in_set_butlastD)

lemma good_segs_foldl:
  "good_segs acc \<Longrightarrow> \<forall>w\<in>set segs. path_sep \<notin> set w \<Longrightarrow> good_segs (foldl (norm_step a) acc segs)"
  by (induction segs arbitrary: acc) (simp_all add: good_segs_norm_step)

lemma join_with_good:
  "good_segs ws \<Longrightarrow> ws \<noteq> [] \<Longrightarrow> \<not> isAbsolute (join_with path_sep ws) \<and> join_with path_sep ws \<noteq> []"
proof (cases ws)
  case Nil then show "ws \<noteq> [] \<Longrightarrow> ?thesis" by simp
next
  case (Cons w vs)
  assume g: "good_segs ws"
  from g Cons obtain c cs where w: "w = c # cs" "c \<noteq> path_sep"
    by (cases w) (auto simp: good_segs_def)
  show ?thesis using Cons w by (cases vs) (simp_all add: isAbsolute_def)
qed

lemma normalizeString_rel: "normalizeString p a \<noteq> [] \<Longrightarrow> \<not> isAbsolute (normalizeString p a)"
proof -
  assume ne: "normalizeString p a \<noteq> []"
  let ?ws = "foldl (norm_step a) [] (split_on path_sep p)"
  have g: "good_segs ?ws"
    by (rule good_segs_foldl) (auto simp: good_segs_def dest: split_on_no_sep)
  from ne have "?ws \<noteq> []" by (auto simp: normalizeString_def)
  from join_with_good[OF g this] show ?thesis by (simp add: normalizeString_def)
qed

lemma isAbsolute_append: "q \<noteq> [] \<Longrightarrow> isAbsolute (q @ r) = isAbsolute q"
  by (cases q) (simp_all add: isAbsolute_def)

lemma isAbsolute_normalize: "isAbsolute (normalize p) = isAbsolute p"
proof (cases "p = []")
  case True then show ?thesis by (simp add: normalize_def isAbsolute_def path_sep_def)
next
  case False
  show ?thesis
  proof (cases "isAbsolute p")
    case True
    with False show ?thesis by (simp add: normalize_def Let_def) (simp add: isAbsolute_def path_sep_def)
  next
    case na: False
    show ?thesis
    proof (cases "normalizeString p True = []")
      case True
      with False na show ?thesis by (simp add: normalize_def Let_def) (simp add: isAbsolute_def path_sep_def)
    next
      case ne: False
      from normalizeString_rel[OF ne] ne False na show ?thesis
        by (simp add: normalize_def Let_def isAbsolute_append)
    qed
  qed
qed

lemma isAbsolute_path_join:
  "isAbsolute (path_join a b) = (if a = [] then isAbsolute b else isAbsolute a)"
  by (simp add: path_join_def isAbsolute_normalize isAbsolute_append) (simp add: isAbsolute_def path_sep_def)

subsection \<open>Rebasing\<close>

lemma forEach_append:
  "forEach f (xs @ ys) s =
     (case forEach f xs s of (Some e, s') \<Rightarrow> (Some e, s') | (None, s') \<Rightarrow> forEach f ys s')"
proof (induction xs arbitrary: s)
  case Nil show ?case by simp
next
  case (Cons x xs)
  obtain eo s1 where "f x s = (eo, s1)" by force
  with Cons.IH[of s1] show ?case by (cases eo) simp_all
qed

lemma rebased_Nil: "rebased u b [] [] [] h = h"
  by (simp add: rebased_def)

lemma forEach_rebase_file:
  assumes "distinct fs" "\<forall>r\<in>set fs. \<not> isAbsolute (base (vinyls h r))"
  shows "forEach (rebase_file u b) fs h = (None, rebased u b fs [] [] h)"
  using assms
proof (induction fs arbitrary: h)
  case Nil show ?case by (simp add: rebased_Nil)
next
  case (Cons r rs)
  let ?h1 = "h\<lparr>vinyls := (vinyls h)(r := u (path_join b (base (vinyls h r))) (vinyls h r))\<rparr>"
  have step: "rebase_file u b r h = (None, ?h1)"
    using Cons.prems by (simp add: rebase_file_def assertRelative_def)
  have "forEach (rebase_file u b) rs ?h1 = (None, rebased u b rs [] [] ?h1)"
    using Cons.prems by (intro Cons.IH) auto
  moreover have "rebased u b rs [] [] ?h1 = rebased u b (r # rs) [] [] h"
    using Cons.prems by (auto simp: rebased_def fun_eq_iff)
  ultimately show ?case using step by simp
qed

lemma forEach_rebase_symlink:
  assumes "distinct ss"
    "\<forall>s\<in>set ss. \<not> isAbsolute (src (links h s)) \<and> \<not> isAbsolute (dest (links h s))"
  shows "forEach (rebase_symlink b) ss h = (None, rebased u b [] ss [] h)"
  using assms
proof (induction ss arbitrary: h)
  case Nil show ?case by (simp add: rebased_Nil)
next
  case (Cons s ss)
  let ?h1 = "h\<lparr>links := (links h)(s := \<lparr>src = path_join b (src (links h s)),
                                        dest = path_join b (dest (links h s))\<rparr>)\<rparr>"
  have step: "rebase_symlink b s h = (None, ?h1)"
    using Cons.prems by (simp add: rebase_symlink_def assertRelative_def)
  have "forEach (rebase_symlink b) ss ?h1 = (None, rebased u b [] ss [] ?h1)"
    using Cons.prems by (intro Cons.IH) auto
  moreover have "rebased u b [] ss [] ?h1 = rebased u b [] (s # ss) [] h"
    using Cons.prems by (auto simp: rebased_def fun_eq_iff)
  ultimately show ?case using step by simp
qed

lemma forEach_rebase_remove:
  assumes "distinct ps" "\<forall>p\<in>set ps. \<not> isAbsolute (rpath (rems h p))"
  shows "forEach (rebase_remove b) ps h = (None, rebased u b [] [] ps h)"
  using assms
proof (induction ps arbitrary: h)
  case Nil show ?case by (simp add: rebased_Nil)
next
  case (Cons p ps)
  let ?h1 = "h\<lparr>rems := (rems h)(p := (rems h p)\<lparr>rpath := path_join b (rpath (rems h p))\<rparr>)\<rparr>"
  have step: "rebase_remove b p h = (None, ?h1)"
    using Cons.prems by (simp add: rebase_remove_def assertRelative_def)
  have "forEach (rebase_remove b) ps ?h1 = (None, rebased u b [] [] ps ?h1)"
    using Cons.prems by (intro Cons.IH) auto
  moreover have "rebased u b [] [] ps ?h1 = rebased u b [] [] (p # ps) h"
    using Cons.prems by (auto simp: rebased_def fun_eq_iff)
  ultimately show ?case using step by simp
qed

lemma rebased_compose:
  "rebased u b [] [] ps (rebased u b [] ss [] (rebased u b fs [] [] h)) = rebased u b fs ss ps h"
  by (simp add: rebased_def cong: if_cong)

lemma rebased_links_compose:
  "rebased u b [] ss [] (rebased u b fs [] [] h) = rebased u b fs ss [] h"
  by (simp add: rebased_def cong: if_cong)

lemma rebased_fields:
  "links (rebased u b fs [] [] h) = links h" "rems (rebased u b fs [] [] h) = rems h"
  "rems (rebased u b fs ss [] h) = rems h"
  by (simp_all add: rebased_def)

lemma addBasePath_relative:
  assumes "distinct (files d)" "distinct (symlinks d)" "distinct (remove d)"
    and "\<forall>r\<in>set (files d). \<not> isAbsolute (base (vinyls h r))"
    and "\<forall>s\<in>set (symlinks d). \<not> isAbsolute (src (links h s)) \<and> \<not> isAbsolute (dest (links h s))"
    and "\<forall>p\<in>set (remove d). \<not> isAbsolute (rpath (rems h p))"
  shows "addBasePath u b d h = (None, rebased u b (files d) (symlinks d) (remove d) h)"
proof -
  let ?h1 = "rebased u b (files d) [] [] h"
  let ?h2 = "rebased u b (files d) (symlinks d) [] h"
  have 1: "forEach (rebase_file u b) (files d) h = (None, ?h1)"
    using assms(1,4) by (rule forEach_rebase_file)
  have "forEach (rebase_symlink b) (symlinks d) ?h1 = (None, rebased u b [] (symlinks d) [] ?h1)"
    using assms(2,5) by (intro forEach_rebase_symlink) (simp_all add: rebased_fields)
  then have 2: "forEach (rebase_symlink b) (symlinks d) ?h1 = (None, ?h2)"
    by (simp add: rebased_links_compose)
  have "forEach (rebase_remove b) (remove d) ?h2 = (None, rebased u b [] [] (remove d) ?h2)"
    using assms(3,6) by (intro forEach_rebase_remove) (simp_all add: rebased_fields)
  then have 3: "forEach (rebase_remove b) (remove d) ?h2
                  = (None, rebased u b (files d) (symlinks d) (remove d) h)"
    by (simp add: rebased_def cong: if_cong)
  show ?thesis using 1 2 3 by (simp add: addBasePath_def)
qed

lemma forEach_error:
  assumes "\<And>x s e s'. f x s = (Some e, s') \<Longrightarrow> Q e"
    and "forEach f xs s = (Some e, s')"
  shows "Q e"
  using assms(2)
proof (induction xs arbitrary: s)
  case Nil then show ?case by simp
next
  case (Cons x xs)
  obtain eo s1 where st: "f x s = (eo, s1)" by force
  show ?case
  proof (cases eo)
    case None with st Cons show ?thesis by simp
  next
    case (Some e1)
    with st Cons.prems have "e = e1" by simp
    with assms(1)[of x s e1 s1] st Some show ?thesis by simp
  qed
qed

lemma forEach_unchanged:
  assumes "\<And>x s. g (snd (f x s)) = g s"
  shows "g (snd (forEach f xs s)) = g s"
proof (induction xs arbitrary: s)
  case Nil show ?case by simp
next
  case (Cons x xs)
  obtain eo s1 where st: "f x s = (eo, s1)" by force
  with assms[of x s] have "g s1 = g s" by simp
  with st Cons.IH[of s1] show ?case by (cases eo) simp_all
qed

lemma rebase_file_error:
  "rebase_file u b r h = (Some e, h') \<Longrightarrow> \<exists>p. e = ExpectedRelative p \<and> isAbsolute p"
  by (auto simp: rebase_file_def assertRelative_def split: if_splits)

lemma rebase_symlink_error:
  "rebase_symlink b s h = (Some e, h') \<Longrightarrow> \<exists>p. e = ExpectedRelative p \<and> isAbsolute p"
  by (auto simp: rebase_symlink_def assertRelative_def split: if_splits)

lemma rebase_remove_error:
  "rebase_remove b p h = (Some e, h') \<Longrightarrow> \<exists>p. e = ExpectedRelative p \<and> isAbsolute p"
  by (auto simp: rebase_remove_def assertRelative_def split: if_splits)

lemma addBasePath_error:
  assumes "addBasePath u b d h = (Some e, h')"
  shows "\<exists>p. e = ExpectedRelative p \<and> isAbsolute p"
proof -
  obtain e1 h1 where 1: "forEach (rebase_file u b) (files d) h = (e1, h1)" by force
  obtain e2 h2 where 2: "forEach (rebase_symlink b) (symlinks d) h1 = (e2, h2)" by force
  show ?thesis
  proof (cases e1)
    case (Some x)
    with 1 assms have "forEach (rebase_file u b) (files d) h = (Some e, h1)"
      by (simp add: addBasePath_def)
    then show ?thesis by (rule forEach_error[rotated]) (rule rebase_file_error)
  next
    case n1: None
    show ?thesis
    proof (cases e2)
      case (Some x)
      with 1 2 n1 assms have "forEach (rebase_symlink b) (symlinks d) h1 = (Some e, h2)"
        by (simp add: addBasePath_def)
      then show ?thesis by (rule forEach_error[rotated]) (rule rebase_symlink_error)
    next
      case None
      with 1 2 n1 assms have "forEach (rebase_remove b) (remove d) h2 = (Some e, h')"
        by (simp add: addBasePath_def)
      then show ?thesis by (rule forEach_error[rotated]) (rule rebase_remove_error)
    qed
  qed
qed

lemma forEach_rebase_file_fails:
  "\<exists>r\<in>set fs. isAbsolute (base (vinyls h r)) \<Longrightarrow> fst (forEach (rebase_file u b) fs h) \<noteq> None"
proof (induction fs arbitrary: h)
  case Nil then show ?case by simp
next
  case (Cons r rs)
  show ?case
  proof (cases "isAbsolute (base (vinyls h r))")
    case True then show ?thesis by (simp add: rebase_file_def assertRelative_def)
  next
    case False
    let ?h1 = "h\<lparr>vinyls := (vinyls h)(r := u (path_join b (base (vinyls h r))) (vinyls h r))\<rparr>"
    from False Cons.prems obtain x where "x \<in> set rs" "isAbsolute (base (vinyls h x))" "x \<noteq> r"
      by auto
    then have "\<exists>x\<in>set rs. isAbsolute (base (vinyls ?h1 x))" by auto
    from Cons.IH[OF this] False show ?thesis by (simp add: rebase_file_def assertRelative_def)
  qed
qed

lemma forEach_rebase_symlink_fails:
  "\<exists>s\<in>set ss. isAbsolute (src (links h s)) \<or> isAbsolute (dest (links h s))
     \<Longrightarrow> fst (forEach (rebase_symlink b) ss h) \<noteq> None"
proof (induction ss arbitrary: h)
  case Nil then show ?case by simp
next
  case (Cons s ss)
  show ?case
  proof (cases "isAbsolute (src (links h s)) \<or> isAbsolute (dest (links h s))")
    case True then show ?thesis by (auto simp: rebase_symlink_def assertRelative_def)
  next
    case False
    let ?h1 = "h\<lparr>links := (links h)(s := \<lparr>src = path_join b (src (links h s)),
                                          dest = path_join b (dest (links h s))\<rparr>)\<rparr>"
    from False Cons.prems obtain x where "x \<in> set ss"
      "isAbsolute (src (links h x)) \<or> isAbsolute (dest (links h x))" "x \<noteq> s"
      by auto
    then have "\<exists>x\<in>set ss. isAbsolute (src (links ?h1 x)) \<or> isAbsolute (dest (links ?h1 x))" by auto
    from Cons.IH[OF this] False show ?thesis by (simp add: rebase_symlink_def assertRelative_def)
  qed
qed

lemma forEach_rebase_remove_fails:
  "\<exists>p\<in>set ps. isAbsolute (rpath (rems h p)) \<Longrightarrow> fst (forEach (rebase_remove b) ps h) \<noteq> None"
proof (induction ps arbitrary: h)
  case Nil then show ?case by simp
next
  case (Cons p ps)
  show ?case
  proof (cases "isAbsolute (rpath (rems h p))")
    case True then show ?thesis by (simp add: rebase_remove_def assertRelative_def)
  next
    case False
    let ?h1 = "h\<lparr>rems := (rems h)(p := (rems h p)\<lparr>rpath := path_join b (rpath (rems h p))\<rparr>)\<rparr>"
    from False Cons.prems obtain x where "x \<in> set ps" "isAbsolute (rpath (rems h x))" "x \<noteq> p"
      by auto
    then have "\<exists>x\<in>set ps. isAbsolute (rpath (rems ?h1 x))" by auto
    from Cons.IH[OF this] False show ?thesis by (simp add: rebase_remove_def assertRelative_def)
  qed
qed

lemma rebase_file_others:
  "links (snd (rebase_file u b r h)) = links h" "rems (snd (rebase_file u b r h)) = rems h"
  by (simp_all add: rebase_file_def split: option.splits)

lemma rebase_symlink_others:
  "rems (snd (rebase_symlink b s h)) = rems h"
  by (simp add: rebase_symlink_def split: option.splits)

lemma addBasePath_absolute_fails:
  assumes "(\<exists>r\<in>set (files d). isAbsolute (base (vinyls h r)))
         \<or> (\<exists>s\<in>set (symlinks d). isAbsolute (src (links h s)) \<or> isAbsolute (dest (links h s)))
         \<or> (\<exists>p\<in>set (remove d). isAbsolute (rpath (rems h p)))"
  shows "fst (addBasePath u b d h) \<noteq> None"
proof -
  obtain e1 h1 where 1: "forEach (rebase_file u b) (files d) h = (e1, h1)" by force
  obtain e2 h2 where 2: "forEach (rebase_symlink b) (symlinks d) h1 = (e2, h2)" by force
  have l1: "links h1 = links h" and r1: "rems h1 = rems h"
    using forEach_unchanged[of links "rebase_file u b" "files d" h, OF rebase_file_others(1)]
      forEach_unchanged[of rems "rebase_file u b" "files d" h, OF rebase_file_others(2)] 1
    by simp_all
  have r2: "rems h2 = rems h"
    using forEach_unchanged[of rems "rebase_symlink b" "symlinks d" h1, OF rebase_symlink_others] 2 r1
    by simp
  show ?thesis
  proof (cases e1)
    case (Some x) with 1 show ?thesis by (simp add: addBasePath_def)
  next
    case n1: None
    with 1 forEach_rebase_file_fails[of "files d" h u b]
    have nf: "\<not> (\<exists>r\<in>set (files d). isAbsolute (base (vinyls h r)))" by auto
    show ?thesis
    proof (cases e2)
      case (Some x) with 1 2 n1 show ?thesis by (simp add: addBasePath_def)
    next
      case n2: None
      with 2 forEach_rebase_symlink_fails[of "symlinks d" h1 b] l1
      have ns: "\<not> (\<exists>s\<in>set (symlinks d). isAbsolute (src (links h s)) \<or> isAbsolute (dest (links h s)))"
        by auto
      with nf assms have "\<exists>p\<in>set (remove d). isAbsolute (rpath (rems h2 p))" using r2 by simp
      from forEach_rebase_remove_fails[OF this, of b] 1 2 n1 n2 show ?thesis
        by (simp add: addBasePath_def)
    qed
  qed
qed

lemma addBasePath_fails_with:
  assumes "fst (addBasePath u b d h) \<noteq> None"
  shows "\<exists>p h'. isAbsolute p \<and> addBasePath u b d h = (Some (ExpectedRelative p), h')"
proof -
  from assms obtain e h' where "addBasePath u b d h = (Some e, h')"
    by (cases "addBasePath u b d h") auto
  with addBasePath_error[OF this] show ?thesis by auto
qed

text \<open>
  Claim C8, as the code has it. The test is on a file's \<open>base\<close>, a symlink's \<open>src\<close>
  and \<open>dest\<close> and a remove-path's \<open>path\<close>. When these are all relative and no object
  is listed twice, addBasePath does not throw: it hands every file to \<open>updatePaths\<close>
  with its base joined onto the given base, and joins every symlink's \<open>src\<close> and
  \<open>dest\<close> and every remove-path's \<open>path\<close> onto the base. When moreover the base is
  absolute, \<open>updatePaths\<close> sets the file's base to the base it is given, and the
  change-set is not empty, a second addBasePath throws. In general addBasePath throws as
  soon as one of the tested strings is absolute.
\<close>

theorem C8_rebase:
  "(distinct (files d) \<and> distinct (symlinks d) \<and> distinct (remove d)
      \<and> (\<forall>r\<in>set (files d). \<not> isAbsolute (base (vinyls h r)))
      \<and> (\<forall>s\<in>set (symlinks d). \<not> isAbsolute (src (links h s)) \<and> \<not> isAbsolute (dest (links h s)))
      \<and> (\<forall>p\<in>set (remove d). \<not> isAbsolute (rpath (rems h p)))
    \<longrightarrow> addBasePath u b d h = (None, rebased u b (files d) (symlinks d) (remove d) h)
        \<and> (isAbsolute b \<and> (\<forall>nb f. base (u nb f) = nb)
             \<and> (files d \<noteq> [] \<or> symlinks d \<noteq> [] \<or> remove d \<noteq> [])
           \<longrightarrow> (\<exists>p h'. isAbsolute p
                  \<and> addBasePath u b d (rebased u b (files d) (symlinks d) (remove d) h)
                      = (Some (ExpectedRelative p), h'))))
   \<and> ((\<exists>r\<in>set (files d). isAbsolute (base (vinyls h r)))
        \<or> (\<exists>s\<in>set (symlinks d). isAbsolute (src (links h s)) \<or> isAbsolute (dest (links h s)))
        \<or> (\<exists>p\<in>set (remove d). isAbsolute (rpath (rems h p)))
      \<longrightarrow> (\<exists>p h'. isAbsolute p \<and> addBasePath u b d h = (Some (ExpectedRelative p), h')))"
proof (intro conjI impI)
  assume a: "distinct (files d) \<and> distinct (symlinks d) \<and> distinct (remove d)
      \<and> (\<forall>r\<in>set (files d). \<not> isAbsolute (base (vinyls h r)))
      \<and> (\<forall>s\<in>set (symlinks d). \<not> isAbsolute (src (links h s)) \<and> \<not> isAbsolute (dest (links h s)))
      \<and> (\<forall>p\<in>set (remove d). \<not> isAbsolute (rpath (rems h p)))"
  then show "addBasePath u b d h = (None, rebased u b (files d) (symlinks d) (remove d) h)"
    by (intro addBasePath_relative) simp_all
  assume b: "isAbsolute b \<and> (\<forall>nb f. base (u nb f) = nb)
             \<and> (files d \<noteq> [] \<or> symlinks d \<noteq> [] \<or> remove d \<noteq> [])"
  let ?h = "rebased u b (files d) (symlinks d) (remove d) h"
  from b have bne: "b \<noteq> []" by (auto simp: isAbsolute_def)
  have "(\<exists>r\<in>set (files d). isAbsolute (base (vinyls ?h r)))
         \<or> (\<exists>s\<in>set (symlinks d). isAbsolute (src (links ?h s)) \<or> isAbsolute (dest (links ?h s)))
         \<or> (\<exists>p\<in>set (remove d). isAbsolute (rpath (rems ?h p)))"
  proof -
    consider "files d \<noteq> []" | "symlinks d \<noteq> []" | "remove d \<noteq> []" using b by blast
    then show ?thesis
    proof cases
      case 1
      then obtain r where "r \<in> set (files d)" by (cases "files d") auto
      then have "isAbsolute (base (vinyls ?h r))"
        using b bne by (simp add: rebased_def isAbsolute_path_join)
      with \<open>r \<in> set (files d)\<close> show ?thesis by blast
    next
      case 2
      then obtain s where "s \<in> set (symlinks d)" by (cases "symlinks d") auto
      then have "isAbsolute (src (links ?h s))"
        using b bne by (simp add: rebased_def isAbsolute_path_join)
      with \<open>s \<in> set (symlinks d)\<close> show ?thesis by blast
    next
      case 3
      then obtain p where "p \<in> set (remove d)" by (cases "remove d") auto
      then have "isAbsolute (rpath (rems ?h p))"
        using b bne by (simp add: rebased_def isAbsolute_path_join)
      with \<open>p \<in> set (remove d)\<close> show ?thesis by blast
    qed
  qed
  from addBasePath_fails_with[OF addBasePath_absolute_fails[OF this]]
  show "\<exists>p h'. isAbsolute p \<and> addBasePath u b d ?h = (Some (ExpectedRelative p), h')" .
next
  assume "(\<exists>r\<in>set (files d). isAbsolute (base (vinyls h r)))
        \<or> (\<exists>s\<in>set (symlinks d). isAbsolute (src (links h s)) \<or> isAbsolute (dest (links h s)))
        \<or> (\<exists>p\<in>set (remove d). isAbsolute (rpath (rems h p)))"
  from addBasePath_fails_with[OF addBasePath_absolute_fails[OF this]]
  show "\<exists>p h'. isAbsolute p \<and> addBasePath u b d h = (Some (ExpectedRelative p), h')" .
qed

lemma store1_simps:
  "vinyls store1 0 = \<lparr>base = ''/repo'', path = ''bar'', contents = ''x'', override = False\<rparr>"
  "vinyls store1 (Suc 0) = \<lparr>base = ''lib'', path = ''lib/a.js'', contents = ''y'', override = False\<rparr>"
  "links store1 0 = \<lparr>src = ''lib/a.js'', dest = ''/abs/link''\<rparr>"
  "links store1 (Suc 0) = \<lparr>src = ''lib/a.js'', dest = ''node_modules/a''\<rparr>"
  "rems store1 0 = \<lparr>rpath = ''old'', removeItsDirIfEmpty = False\<rparr>"
  "rems store1 (Suc 0) = \<lparr>rpath = ''/w/old'', removeItsDirIfEmpty = True\<rparr>"
  by (simp_all add: store1_def)

lemma sample_joins:
  "path_join ''/w'' ''lib'' = ''/w/lib''"
  "path_join ''/w'' ''lib/a.js'' = ''/w/lib/a.js''"
  "path_join ''/w'' ''node_modules/a'' = ''/w/node_modules/a''"
  "path_join ''/w'' ''old'' = ''/w/old''"
  "path_join ''w'' ''old'' = ''w/old''"
  "path_join ''w'' ''w/old'' = ''w/w/old''"
  by code_simp+

lemma sample_absolute:
  "\<not> isAbsolute ''lib''" "\<not> isAbsolute ''lib/a.js''" "\<not> isAbsolute ''node_modules/a''"
  "\<not> isAbsolute ''old''" "isAbsolute ''/w''" "isAbsolute ''/abs/link''" "\<not> isAbsolute ''bar''"
  "isAbsolute ''/repo''" "\<not> isAbsolute ''w/old''" "isAbsolute ''/w/old''"
  by (simp_all add: isAbsolute_def path_sep_def)

text \<open>Claim C8 at a change-set of one file, one symlink and one remove-path.\<close>

theorem C8_rebase_witness:
  "addBasePath set_base ''/w'' \<lparr>files = [1], symlinks = [1], remove = [0]\<rparr> store1
     = (None, rebased set_base ''/w'' [1] [1] [0] store1)
   \<and> base (vinyls (rebased set_base ''/w'' [1] [1] [0] store1) 1) = ''/w/lib''
   \<and> links (rebased set_base ''/w'' [1] [1] [0] store1) 1
        = \<lparr>src = ''/w/lib/a.js'', dest = ''/w/node_modules/a''\<rparr>
   \<and> rpath (rems (rebased set_base ''/w'' [1] [1] [0] store1) 0) = ''/w/old''
   \<and> (\<exists>p h'. isAbsolute p
         \<and> addBasePath set_base ''/w'' \<lparr>files = [1], symlinks = [1], remove = [0]\<rparr>
              (rebased set_base ''/w'' [1] [1] [0] store1) = (Some (ExpectedRelative p), h'))
   \<and> (\<exists>p h'. isAbsolute p
         \<and> addBasePath set_base ''/w'' \<lparr>files = [1], symlinks = [0], remove = []\<rparr> store1
             = (Some (ExpectedRelative p), h'))"
proof -
  let ?d = "\<lparr>files = [1], symlinks = [1], remove = [0]\<rparr>"
  let ?d' = "\<lparr>files = [1], symlinks = [0], remove = []\<rparr>"
  have rel: "distinct (files ?d) \<and> distinct (symlinks ?d) \<and> distinct (remove ?d)
      \<and> (\<forall>r\<in>set (files ?d). \<not> isAbsolute (base (vinyls store1 r)))
      \<and> (\<forall>s\<in>set (symlinks ?d). \<not> isAbsolute (src (links store1 s)) \<and> \<not> isAbsolute (dest (links store1 s)))
      \<and> (\<forall>p\<in>set (remove ?d). \<not> isAbsolute (rpath (rems store1 p)))"
    by (simp add: store1_simps sample_absolute)
  have again: "isAbsolute ''/w'' \<and> (\<forall>nb f. base (set_base nb f) = nb)
             \<and> (files ?d \<noteq> [] \<or> symlinks ?d \<noteq> [] \<or> remove ?d \<noteq> [])"
    by (simp add: sample_absolute set_base_def)
  have ab: "(\<exists>r\<in>set (files ?d'). isAbsolute (base (vinyls store1 r)))
        \<or> (\<exists>s\<in>set (symlinks ?d'). isAbsolute (src (links store1 s)) \<or> isAbsolute (dest (links store1 s)))
        \<or> (\<exists>p\<in>set (remove ?d'). isAbsolute (rpath (rems store1 p)))"
    by (simp add: store1_simps sample_absolute)
  note t = C8_rebase[of ?d store1 set_base "''/w''"]
  note t' = C8_rebase[of ?d' store1 set_base "''/w''"]
  have 1: "addBasePath set_base ''/w'' ?d store1 = (None, rebased set_base ''/w'' [1] [1] [0] store1)"
    using t rel by simp
  have 2: "\<exists>p h'. isAbsolute p
         \<and> addBasePath set_base ''/w'' ?d (rebased set_base ''/w'' [1] [1] [0] store1)
             = (Some (ExpectedRelative p), h')"
    using t rel again by simp
  have 3: "\<exists>p h'. isAbsolute p \<and> addBasePath set_base ''/w'' ?d' store1 = (Some (ExpectedRelative p), h')"
    using t' ab by blast
  have 4: "base (vinyls (rebased set_base ''/w'' [1] [1] [0] store1) 1) = ''/w/lib''"
    "links (rebased set_base ''/w'' [1] [1] [0] store1) 1
        = \<lparr>src = ''/w/lib/a.js'', dest = ''/w/node_modules/a''\<rparr>"
    "rpath (rems (rebased set_base ''/w'' [1] [1] [0] store1) 0) = ''/w/old''"
    by (simp_all add: rebased_def store1_simps sample_joins set_base_def)
  from 1 2 3 4 show ?thesis by blast
qed

text \<open>
  Claim C8 as stated fails: a file whose \<open>path\<close> is relative and whose \<open>base\<close> is
  absolute makes the first addBasePath throw; on the empty change-set no addBasePath
  throws; with a relative base the second addBasePath does not throw either.
\<close>

theorem C8_rebase_counterexample:
  "\<not> isAbsolute (path (vinyls store1 0))
   \<and> addBasePath set_base ''/w'' \<lparr>files = [0], symlinks = [], remove = []\<rparr> store1
       = (Some (ExpectedRelative ''/repo''), store1)
   \<and> addBasePath set_base ''/w'' new_data_to_persist store1 = (None, store1)
   \<and> \<not> isAbsolute (rpath (rems store1 0))
   \<and> fst (addBasePath set_base ''w'' \<lparr>files = [], symlinks = [], remove = [0]\<rparr> store1) = None
   \<and> fst (addBasePath set_base ''w'' \<lparr>files = [], symlinks = [], remove = [0]\<rparr>
            (snd (addBasePath set_base ''w'' \<lparr>files = [], symlinks = [], remove = [0]\<rparr> store1))) = None"
  by (simp add: addBasePath_def rebase_file_def rebase_remove_def assertRelative_def
      new_data_to_persist_def store1_simps sample_absolute sample_joins)

lemma rebased_changes:
  assumes "isAbsolute b"
  shows "r \<in> set fs \<Longrightarrow> \<not> isAbsolute (base (vinyls h r)) \<Longrightarrow> \<forall>nb f. base (u nb f) = nb
           \<Longrightarrow> rebased u b fs ss ps h \<noteq> h"
    and "s \<in> set ss \<Longrightarrow> \<not> isAbsolute (src (links h s)) \<Longrightarrow> rebased u b fs ss ps h \<noteq> h"
    and "p \<in> set ps \<Longrightarrow> \<not> isAbsolute (rpath (rems h p)) \<Longrightarrow> rebased u b fs ss ps h \<noteq> h"
proof -
  from assms have bne: "b \<noteq> []" by (auto simp: isAbsolute_def)
  { assume a: "r \<in> set fs" "\<not> isAbsolute (base (vinyls h r))" "\<forall>nb f. base (u nb f) = nb"
    then have "isAbsolute (base (vinyls (rebased u b fs ss ps h) r))"
      using assms bne by (simp add: rebased_def isAbsolute_path_join)
    with a(2) show "rebased u b fs ss ps h \<noteq> h" by auto }
  { assume a: "s \<in> set ss" "\<not> isAbsolute (src (links h s))"
    then have "isAbsolute (src (links (rebased u b fs ss ps h) s))"
      using assms bne by (simp add: rebased_def isAbsolute_path_join)
    with a(2) show "rebased u b fs ss ps h \<noteq> h" by auto }
  { assume a: "p \<in> set ps" "\<not> isAbsolute (rpath (rems h p))"
    then have "isAbsolute (rpath (rems (rebased u b fs ss ps h) p))"
      using assms bne by (simp add: rebased_def isAbsolute_path_join)
    with a(2) show "rebased u b fs ss ps h \<noteq> h" by auto }
qed

lemma rebase_files_cut:
  assumes "distinct (fs1 @ r # fs2)" "\<forall>x\<in>set fs1. \<not> isAbsolute (base (vinyls h x))"
    "isAbsolute (base (vinyls h r))"
  shows "forEach (rebase_file u b) (fs1 @ r # fs2) h
           = (Some (ExpectedRelative (base (vinyls h r))), rebased u b fs1 [] [] h)"
proof -
  have 1: "forEach (rebase_file u b) fs1 h = (None, rebased u b fs1 [] [] h)"
    using assms(1,2) by (intro forEach_rebase_file) simp_all
  have "vinyls (rebased u b fs1 [] [] h) r = vinyls h r" using assms(1) by (simp add: rebased_def)
  then have "rebase_file u b r (rebased u b fs1 [] [] h)
               = (Some (ExpectedRelative (base (vinyls h r))), rebased u b fs1 [] [] h)"
    using assms(3) by (simp add: rebase_file_def assertRelative_def)
  with 1 show ?thesis by (simp add: forEach_append)
qed

lemma rebase_symlinks_cut:
  assumes "distinct (ss1 @ s # ss2)"
    "\<forall>x\<in>set ss1. \<not> isAbsolute (src (links h x)) \<and> \<not> isAbsolute (dest (links h x))"
    "isAbsolute (src (links h s)) \<or> isAbsolute (dest (links h s))"
  shows "forEach (rebase_symlink b) (ss1 @ s # ss2) h
           = (Some (ExpectedRelative (if isAbsolute (src (links h s)) then src (links h s)
                                     else dest (links h s))), rebased u b [] ss1 [] h)"
proof -
  have 1: "forEach (rebase_symlink b) ss1 h = (None, rebased u b [] ss1 [] h)"
    using assms(1,2) by (intro forEach_rebase_symlink) simp_all
  have "links (rebased u b [] ss1 [] h) s = links h s" using assms(1) by (simp add: rebased_def)
  then have "rebase_symlink b s (rebased u b [] ss1 [] h)
               = (Some (ExpectedRelative (if isAbsolute (src (links h s)) then src (links h s)
                                     else dest (links h s))), rebased u b [] ss1 [] h)"
    using assms(3) by (auto simp: rebase_symlink_def assertRelative_def)
  with 1 show ?thesis by (simp add: forEach_append)
qed

lemma rebase_removes_cut:
  assumes "distinct (ps1 @ p # ps2)" "\<forall>x\<in>set ps1. \<not> isAbsolute (rpath (rems h x))"
    "isAbsolute (rpath (rems h p))"
  shows "forEach (rebase_remove b) (ps1 @ p # ps2) h
           = (Some (ExpectedRelative (rpath (rems h p))), rebased u b [] [] ps1 h)"
proof -
  have 1: "forEach (rebase_remove b) ps1 h = (None, rebased u b [] [] ps1 h)"
    using assms(1,2) by (intro forEach_rebase_remove) simp_all
  have "rems (rebased u b [] [] ps1 h) p = rems h p" using assms(1) by (simp add: rebased_def)
  then have "rebase_remove b p (rebased u b [] [] ps1 h)
               = (Some (ExpectedRelative (rpath (rems h p))), rebased u b [] [] ps1 h)"
    using assms(3) by (simp add: rebase_remove_def assertRelative_def)
  with 1 show ?thesis by (simp add: forEach_append)
qed

text \<open>
  Claim C10. addBasePath goes through the files, then the symlinks, then the remove-paths,
  testing each entry just before it rewrites it. When no object is listed twice and the
  first entry that fails the test is a file, a symlink or a remove-path, the call throws
  for that entry and leaves the store with exactly the entries before it rewritten: the
  earlier files, or all files and the earlier symlinks, or all files, all symlinks and the
  earlier remove-paths. With an absolute base that store differs from the one before the
  call as soon as a symlink or a remove-path was rewritten (or a file, when
  \<open>updatePaths\<close> sets the base).
\<close>

theorem C10_rebase_not_atomic:
  assumes "distinct (files d)" "distinct (symlinks d)" "distinct (remove d)"
  shows "(\<forall>fs1 r fs2.
            files d = fs1 @ r # fs2 \<and> (\<forall>x\<in>set fs1. \<not> isAbsolute (base (vinyls h x)))
            \<and> isAbsolute (base (vinyls h r))
          \<longrightarrow> addBasePath u b d h
                = (Some (ExpectedRelative (base (vinyls h r))), rebased u b fs1 [] [] h)
              \<and> (isAbsolute b \<and> (\<forall>nb f. base (u nb f) = nb) \<and> fs1 \<noteq> []
                  \<longrightarrow> rebased u b fs1 [] [] h \<noteq> h))
       \<and> (\<forall>ss1 s ss2.
            (\<forall>x\<in>set (files d). \<not> isAbsolute (base (vinyls h x)))
            \<and> symlinks d = ss1 @ s # ss2
            \<and> (\<forall>x\<in>set ss1. \<not> isAbsolute (src (links h x)) \<and> \<not> isAbsolute (dest (links h x)))
            \<and> (isAbsolute (src (links h s)) \<or> isAbsolute (dest (links h s)))
          \<longrightarrow> addBasePath u b d h
                = (Some (ExpectedRelative (if isAbsolute (src (links h s)) then src (links h s)
                                          else dest (links h s))),
                   rebased u b (files d) ss1 [] h)
              \<and> (isAbsolute b \<and> ss1 \<noteq> [] \<longrightarrow> rebased u b (files d) ss1 [] h \<noteq> h))
       \<and> (\<forall>ps1 p ps2.
            (\<forall>x\<in>set (files d). \<not> isAbsolute (base (vinyls h x)))
            \<and> (\<forall>x\<in>set (symlinks d). \<not> isAbsolute (src (links h x)) \<and> \<not> isAbsolute (dest (links h x)))
            \<and> remove d = ps1 @ p # ps2
            \<and> (\<forall>x\<in>set ps1. \<not> isAbsolute (rpath (rems h x)))
            \<and> isAbsolute (rpath (rems h p))
          \<longrightarrow> addBasePath u b d h
                = (Some (ExpectedRelative (rpath (rems h p))),
                   rebased u b (files d) (symlinks d) ps1 h)
              \<and> (isAbsolute b \<and> (symlinks d \<noteq> [] \<or> ps1 \<noteq> [])
                  \<longrightarrow> rebased u b (files d) (symlinks d) ps1 h \<noteq> h))"
proof (intro conjI allI impI)
  fix fs1 r fs2
  assume a: "files d = fs1 @ r # fs2 \<and> (\<forall>x\<in>set fs1. \<not> isAbsolute (base (vinyls h x)))
            \<and> isAbsolute (base (vinyls h r))"
  then have "forEach (rebase_file u b) (files d) h
           = (Some (ExpectedRelative (base (vinyls h r))), rebased u b fs1 [] [] h)"
    using assms(1) rebase_files_cut[of fs1 r fs2 h u b] by simp
  then show "addBasePath u b d h
                = (Some (ExpectedRelative (base (vinyls h r))), rebased u b fs1 [] [] h)"
    by (simp add: addBasePath_def)
  assume c: "isAbsolute b \<and> (\<forall>nb f. base (u nb f) = nb) \<and> fs1 \<noteq> []"
  then obtain x where "x \<in> set fs1" by (cases fs1) auto
  with a c rebased_changes(1)[of b x fs1 h u "[]" "[]"]
  show "rebased u b fs1 [] [] h \<noteq> h" by blast
next
  fix ss1 s ss2
  assume a: "(\<forall>x\<in>set (files d). \<not> isAbsolute (base (vinyls h x)))
            \<and> symlinks d = ss1 @ s # ss2
            \<and> (\<forall>x\<in>set ss1. \<not> isAbsolute (src (links h x)) \<and> \<not> isAbsolute (dest (links h x)))
            \<and> (isAbsolute (src (links h s)) \<or> isAbsolute (dest (links h s)))"
  let ?h1 = "rebased u b (files d) [] [] h"
  let ?e = "ExpectedRelative (if isAbsolute (src (links h s)) then src (links h s)
                                          else dest (links h s))"
  have 1: "forEach (rebase_file u b) (files d) h = (None, ?h1)"
    using assms(1) a by (intro forEach_rebase_file) simp_all
  have "forEach (rebase_symlink b) (symlinks d) ?h1 = (Some ?e, rebased u b [] ss1 [] ?h1)"
    using assms(2) a rebase_symlinks_cut[of ss1 s ss2 ?h1 b u] by (simp add: rebased_fields)
  then have 2: "forEach (rebase_symlink b) (symlinks d) ?h1 = (Some ?e, rebased u b (files d) ss1 [] h)"
    by (simp add: rebased_links_compose)
  from 1 2 show "addBasePath u b d h = (Some ?e, rebased u b (files d) ss1 [] h)"
    by (simp add: addBasePath_def)
  assume c: "isAbsolute b \<and> ss1 \<noteq> []"
  then obtain x where "x \<in> set ss1" by (cases ss1) auto
  with a c rebased_changes(2)[of b x ss1 h u "files d" "[]"]
  show "rebased u b (files d) ss1 [] h \<noteq> h" by blast
next
  fix ps1 p ps2
  assume a: "(\<forall>x\<in>set (files d). \<not> isAbsolute (base (vinyls h x)))
            \<and> (\<forall>x\<in>set (symlinks d). \<not> isAbsolute (src (links h x)) \<and> \<not> isAbsolute (dest (links h x)))
            \<and> remove d = ps1 @ p # ps2
            \<and> (\<forall>x\<in>set ps1. \<not> isAbsolute (rpath (rems h x)))
            \<and> isAbsolute (rpath (rems h p))"
  let ?h1 = "rebased u b (files d) [] [] h"
  let ?h2 = "rebased u b (files d) (symlinks d) [] h"
  let ?e = "ExpectedRelative (rpath (rems h p))"
  have 1: "forEach (rebase_file u b) (files d) h = (None, ?h1)"
    using assms(1) a by (intro forEach_rebase_file) simp_all
  have "forEach (rebase_symlink b) (symlinks d) ?h1 = (None, rebased u b [] (symlinks d) [] ?h1)"
    using assms(2) a by (intro forEach_rebase_symlink) (simp_all add: rebased_fields)
  then have 2: "forEach (rebase_symlink b) (symlinks d) ?h1 = (None, ?h2)"
    by (simp add: rebased_links_compose)
  have "forEach (rebase_remove b) (remove d) ?h2 = (Some ?e, rebased u b [] [] ps1 ?h2)"
    using assms(3) a rebase_removes_cut[of ps1 p ps2 ?h2 b u] by (simp add: rebased_fields)
  then have 3: "forEach (rebase_remove b) (remove d) ?h2
                  = (Some ?e, rebased u b (files d) (symlinks d) ps1 h)"
    by (simp add: rebased_def cong: if_cong)
  from 1 2 3 show "addBasePath u b d h = (Some ?e, rebased u b (files d) (symlinks d) ps1 h)"
    by (simp add: addBasePath_def)
  assume c: "isAbsolute b \<and> (symlinks d \<noteq> [] \<or> ps1 \<noteq> [])"
  show "rebased u b (files d) (symlinks d) ps1 h \<noteq> h"
  proof (cases "symlinks d")
    case (Cons x xs)
    then have "x \<in> set (symlinks d)" by simp
    with a c rebased_changes(2)[of b x "symlinks d" h u "files d" ps1] show ?thesis by blast
  next
    case Nil
    with c obtain x where "x \<in> set ps1" by (cases ps1) auto
    with a c rebased_changes(3)[of b x ps1 h u "files d" "symlinks d"] show ?thesis by blast
  qed
qed

text \<open>Claim C10 at a throw in each of the three loops.\<close>

theorem C10_rebase_not_atomic_witness:
  "addBasePath set_base ''/w'' \<lparr>files = [1], symlinks = [1, 0], remove = [0]\<rparr> store1
     = (Some (ExpectedRelative ''/abs/link''), rebased set_base ''/w'' [1] [1] [] store1)
   \<and> rebased set_base ''/w'' [1] [1] [] store1 \<noteq> store1
   \<and> base (vinyls (rebased set_base ''/w'' [1] [1] [] store1) 1) = ''/w/lib''
   \<and> links (rebased set_base ''/w'' [1] [1] [] store1) 1
        = \<lparr>src = ''/w/lib/a.js'', dest = ''/w/node_modules/a''\<rparr>
   \<and> links (rebased set_base ''/w'' [1] [1] [] store1) 0 = links store1 0
   \<and> rems (rebased set_base ''/w'' [1] [1] [] store1) 0 = rems store1 0
   \<and> addBasePath set_base ''/w'' \<lparr>files = [1, 0], symlinks = [], remove = []\<rparr> store1
     = (Some (ExpectedRelative ''/repo''), rebased set_base ''/w'' [1] [] [] store1)
   \<and> addBasePath set_base ''/w'' \<lparr>files = [], symlinks = [1], remove = [0, 1]\<rparr> store1
     = (Some (ExpectedRelative ''/w/old''), rebased set_base ''/w'' [] [1] [0] store1)"
proof -
  let ?d = "\<lparr>files = [1], symlinks = [1, 0], remove = [0]\<rparr>"
  let ?d1 = "\<lparr>files = [1, 0], symlinks = [], remove = []\<rparr>"
  let ?d3 = "\<lparr>files = [], symlinks = [1], remove = [0, 1]\<rparr>"
  have dd: "distinct (files ?d)" "distinct (symlinks ?d)" "distinct (remove ?d)" by simp_all
  have dd1: "distinct (files ?d1)" "distinct (symlinks ?d1)" "distinct (remove ?d1)" by simp_all
  have dd3: "distinct (files ?d3)" "distinct (symlinks ?d3)" "distinct (remove ?d3)" by simp_all
  note t = C10_rebase_not_atomic[OF dd, of store1 set_base "''/w''"]
  note t1 = C10_rebase_not_atomic[OF dd1, of store1 set_base "''/w''"]
  note t3 = C10_rebase_not_atomic[OF dd3, of store1 set_base "''/w''"]
  have h2: "(\<forall>x\<in>set (files ?d). \<not> isAbsolute (base (vinyls store1 x)))
            \<and> symlinks ?d = [1] @ 0 # []
            \<and> (\<forall>x\<in>set [1]. \<not> isAbsolute (src (links store1 x)) \<and> \<not> isAbsolute (dest (links store1 x)))
            \<and> (isAbsolute (src (links store1 0)) \<or> isAbsolute (dest (links store1 0)))"
    by (simp add: store1_simps sample_absolute)
  from t have "addBasePath set_base ''/w'' ?d store1
                = (Some (ExpectedRelative (if isAbsolute (src (links store1 0)) then src (links store1 0)
                                          else dest (links store1 0))),
                   rebased set_base ''/w'' (files ?d) [1] [] store1)
              \<and> (isAbsolute ''/w'' \<and> [1::nat] \<noteq> [] \<longrightarrow> rebased set_base ''/w'' (files ?d) [1] [] store1 \<noteq> store1)"
    using h2 by blast
  then have a: "addBasePath set_base ''/w'' ?d store1
     = (Some (ExpectedRelative ''/abs/link''), rebased set_base ''/w'' [1] [1] [] store1)"
    and b: "rebased set_base ''/w'' [1] [1] [] store1 \<noteq> store1"
    by (simp_all add: store1_simps sample_absolute)
  have h1: "files ?d1 = [1] @ 0 # [] \<and> (\<forall>x\<in>set [1]. \<not> isAbsolute (base (vinyls store1 x)))
            \<and> isAbsolute (base (vinyls store1 0))"
    by (simp add: store1_simps sample_absolute)
  from t1 have "addBasePath set_base ''/w'' ?d1 store1
                = (Some (ExpectedRelative (base (vinyls store1 0))), rebased set_base ''/w'' [1] [] [] store1)"
    using h1 by blast
  then have c: "addBasePath set_base ''/w'' ?d1 store1
     = (Some (ExpectedRelative ''/repo''), rebased set_base ''/w'' [1] [] [] store1)"
    by (simp add: store1_simps)
  have h3: "(\<forall>x\<in>set (files ?d3). \<not> isAbsolute (base (vinyls store1 x)))
            \<and> (\<forall>x\<in>set (symlinks ?d3). \<not> isAbsolute (src (links store1 x)) \<and> \<not> isAbsolute (dest (links store1 x)))
            \<and> remove ?d3 = [0] @ 1 # []
            \<and> (\<forall>x\<in>set [0]. \<not> isAbsolute (rpath (rems store1 x)))
            \<and> isAbsolute (rpath (rems store1 1))"
    by (simp add: store1_simps sample_absolute)
  from t3 have "addBasePath set_base ''/w'' ?d3 store1
                = (Some (ExpectedRelative (rpath (rems store1 1))),
                   rebased set_base ''/w'' (files ?d3) (symlinks ?d3) [0] store1)"
    using h3 by blast
  then have e: "addBasePath set_base ''/w'' ?d3 store1
     = (Some (ExpectedRelative ''/w/old''), rebased set_base ''/w'' [] [1] [0] store1)"
    by (simp add: store1_simps)
  have f: "base (vinyls (rebased set_base ''/w'' [1] [1] [] store1) 1) = ''/w/lib''"
    "links (rebased set_base ''/w'' [1] [1] [] store1) 1
        = \<lparr>src = ''/w/lib/a.js'', dest = ''/w/node_modules/a''\<rparr>"
    "links (rebased set_base ''/w'' [1] [1] [] store1) 0 = links store1 0"
    "rems (rebased set_base ''/w'' [1] [1] [] store1) 0 = rems store1 0"
    by (simp_all add: rebased_def store1_simps sample_joins set_base_def)
  from a b c e f show ?thesis by blast
qed

subsection \<open>Committing\<close>

lemma first_error_None: "first_error f xs = None \<longleftrightarrow> (\<forall>x\<in>set xs. f x = None)"
  by (induction xs) (auto split: option.splits)

lemma first_error_Some: "first_error f xs = Some e \<Longrightarrow> \<exists>x\<in>set xs. f x = Some e"
  by (induction xs) (auto split: option.splits)

lemma validate_None:
  "validate h d = None \<longleftrightarrow>
     (\<forall>f\<in>set (files d). isAbsolute (path (vinyls h f)))
     \<and> (\<forall>p\<in>set (remove d). isAbsolute (rpath (rems h p)))
     \<and> (\<forall>s\<in>set (symlinks d). isAbsolute (src (links h s)) \<and> isAbsolute (dest (links h s)))"
proof -
  have "validate h d = None \<longleftrightarrow>
          first_error (\<lambda>f. validateAbsolutePath (path (vinyls h f))) (files d) = None
          \<and> first_error (\<lambda>p. validateAbsolutePath (rpath (rems h p))) (remove d) = None
          \<and> first_error (\<lambda>s. case validateAbsolutePath (src (links h s)) of
                                   Some e \<Rightarrow> Some e
                                 | None \<Rightarrow> validateAbsolutePath (dest (links h s)))
                           (symlinks d) = None"
    by (auto simp: validate_def split: option.splits)
  also have "\<dots> \<longleftrightarrow> (\<forall>f\<in>set (files d). isAbsolute (path (vinyls h f)))
     \<and> (\<forall>p\<in>set (remove d). isAbsolute (rpath (rems h p)))
     \<and> (\<forall>s\<in>set (symlinks d). isAbsolute (src (links h s)) \<and> isAbsolute (dest (links h s)))"
    unfolding first_error_None by (auto simp: validateAbsolutePath_def split: option.splits if_splits)
  finally show ?thesis .
qed

lemma validate_Some: "validate h d = Some e \<Longrightarrow> \<exists>p. e = ExpectedAbsolute p \<and> \<not> isAbsolute p"
  by (auto simp: validate_def validateAbsolutePath_def split: option.splits if_splits
      dest!: first_error_Some)

text \<open>
  Claim C4, as the code has it. persistAllToFS validates first: when some file path,
  remove path, symlink source or symlink destination is not absolute it throws, naming a
  path that is not absolute, and has handed no task to the filesystem, so that its only
  run is the empty one. persistAllToCapsule does not validate: whatever the paths are, it
  hands its three batches to the capsule.
\<close>

theorem C4_validate:
  "((\<exists>f\<in>set (files d). \<not> isAbsolute (path (vinyls h f)))
      \<or> (\<exists>p\<in>set (remove d). \<not> isAbsolute (rpath (rems h p)))
      \<or> (\<exists>s\<in>set (symlinks d). \<not> isAbsolute (src (links h s)) \<or> \<not> isAbsolute (dest (links h s)))
    \<longrightarrow> (\<exists>p. \<not> isAbsolute p \<and> persistAllToFS h d = Inl (ExpectedAbsolute p))
        \<and> (\<forall>tr. commit_runs (persistAllToFS h d) tr \<longrightarrow> tr = []))
   \<and> persistAllToCapsule h d
       = Inr [map (\<lambda>p. CapsuleRemovePath (rpath (rems h p))) (remove d),
              map (\<lambda>f. CapsuleOutputFile (path (vinyls h f)) (contents (vinyls h f))) (files d),
              map (\<lambda>s. CapsuleSymlink (src (links h s)) (dest (links h s))) (symlinks d)]"
proof (intro conjI impI)
  assume "(\<exists>f\<in>set (files d). \<not> isAbsolute (path (vinyls h f)))
      \<or> (\<exists>p\<in>set (remove d). \<not> isAbsolute (rpath (rems h p)))
      \<or> (\<exists>s\<in>set (symlinks d). \<not> isAbsolute (src (links h s)) \<or> \<not> isAbsolute (dest (links h s)))"
  then have "validate h d \<noteq> None" by (auto simp: validate_None)
  then obtain e where e: "validate h d = Some e" by auto
  from validate_Some[OF e] obtain p where p: "e = ExpectedAbsolute p" "\<not> isAbsolute p" by auto
  from e p show "\<exists>p. \<not> isAbsolute p \<and> persistAllToFS h d = Inl (ExpectedAbsolute p)"
    by (auto simp: persistAllToFS_def)
  from e show "\<forall>tr. commit_runs (persistAllToFS h d) tr \<longrightarrow> tr = []"
    by (simp add: persistAllToFS_def commit_runs_def)
next
  show "persistAllToCapsule h d
       = Inr [map (\<lambda>p. CapsuleRemovePath (rpath (rems h p))) (remove d),
              map (\<lambda>f. CapsuleOutputFile (path (vinyls h f)) (contents (vinyls h f))) (files d),
              map (\<lambda>s. CapsuleSymlink (src (links h s)) (dest (links h s))) (symlinks d)]"
    by (simp add: persistAllToCapsule_def)
qed

text \<open>Claim C4 for the filesystem, at a change-set whose only file has the path \<open>bar\<close>.\<close>

theorem C4_validate_witness:
  "persistAllToFS store0 \<lparr>files = [0], symlinks = [], remove = []\<rparr> = Inl (ExpectedAbsolute ''bar'')
   \<and> commit_runs (persistAllToFS store0 \<lparr>files = [0], symlinks = [], remove = []\<rparr>) []
   \<and> \<not> commit_runs (persistAllToFS store0 \<lparr>files = [0], symlinks = [], remove = []\<rparr>)
          [Start (FileWrite ''bar'' ''old''), Done (FileWrite ''bar'' ''old'')]"
proof -
  let ?d = "\<lparr>files = [0], symlinks = [], remove = []\<rparr>"
  have p: "path (vinyls store0 0) = ''bar''" by (simp add: store0_simps file_bar_def)
  have na: "\<not> isAbsolute ''bar''" by (simp add: isAbsolute_def path_sep_def)
  have "(\<exists>f\<in>set (files ?d). \<not> isAbsolute (path (vinyls store0 f)))
      \<or> (\<exists>p\<in>set (remove ?d). \<not> isAbsolute (rpath (rems store0 p)))
      \<or> (\<exists>s\<in>set (symlinks ?d). \<not> isAbsolute (src (links store0 s)) \<or> \<not> isAbsolute (dest (links store0 s)))"
    using p na by simp
  with C4_validate[of ?d store0]
  have 1: "\<exists>p. \<not> isAbsolute p \<and> persistAllToFS store0 ?d = Inl (ExpectedAbsolute p)"
    and 2: "\<forall>tr. commit_runs (persistAllToFS store0 ?d) tr \<longrightarrow> tr = []" by blast+
  from 1 have 3: "persistAllToFS store0 ?d = Inl (ExpectedAbsolute ''bar'')"
    using p na by (auto simp: persistAllToFS_def validate_def validateAbsolutePath_def)
  then have 4: "commit_runs (persistAllToFS store0 ?d) []" by (simp add: commit_runs_def)
  from 2 have 5: "\<not> commit_runs (persistAllToFS store0 ?d)
          [Start (FileWrite ''bar'' ''old''), Done (FileWrite ''bar'' ''old'')]" by blast
  from 3 4 5 show ?thesis by blast
qed

text \<open>
  Claim C4 as stated fails for the capsule: a change-set whose only file has the
  relative path \<open>bar\<close> is committed to the capsule without an error, and the file is
  written.
\<close>

theorem C4_validate_counterexample:
  "\<not> isAbsolute (path (vinyls store0 0))
   \<and> persistAllToCapsule store0 \<lparr>files = [0], symlinks = [], remove = []\<rparr>
       = Inr [[], [CapsuleOutputFile ''bar'' ''old''], []]
   \<and> commit_runs (persistAllToCapsule store0 \<lparr>files = [0], symlinks = [], remove = []\<rparr>)
       [Start (CapsuleOutputFile ''bar'' ''old''), Done (CapsuleOutputFile ''bar'' ''old'')]"
proof -
  let ?w = "CapsuleOutputFile ''bar'' ''old''"
  have c: "persistAllToCapsule store0 \<lparr>files = [0], symlinks = [], remove = []\<rparr> = Inr [[], [?w], []]"
    by (simp add: persistAllToCapsule_def store0_simps file_bar_def)
  have b0: "batch [] [] True" using batch_done[of "[]" "[]"] by simp
  have b1: "batch [?w] [Start ?w, Done ?w] True" using batch_done[of "[Done ?w]" "[?w]"] by simp
  have "runs [[]] [] True" using runs_next[OF b0 runs_end] by simp
  from runs_next[OF b1 this] have "runs [[?w], []] [Start ?w, Done ?w] True" by simp
  from runs_next[OF b0 this] have "runs [[], [?w], []] [Start ?w, Done ?w] True" by simp
  with c show ?thesis
    by (simp add: commit_runs_def store0_simps file_bar_def isAbsolute_def path_sep_def)
qed

lemma batch_Start:
  assumes "batch b tr ok" "Start t \<in> set tr"
  shows "t \<in> set b"
  using assms
proof (cases rule: batch.cases)
  case (batch_done cs)
  then have "set cs = Done ` set b" using mset_eq_setD[of cs "map Done b"] by simp
  with batch_done assms(2) show ?thesis by auto
next
  case (batch_failed t' cs)
  then have "set_mset (mset cs) \<subseteq> set_mset (mset (map Done (remove1 t' b)))"
    by (intro set_mset_mono)
  then have "set cs \<subseteq> Done ` set (remove1 t' b)"
    by (simp only: set_mset_mset set_map)
  with batch_failed assms(2) show ?thesis by auto
qed

lemma batch_True_Done:
  assumes "batch b tr True"
  shows "mset (map Done b) \<subseteq># mset tr"
  using assms by (cases rule: batch.cases) simp_all

lemma runs_order:
  assumes "runs bs tr ok" "tr = pre @ Start t # post"
  shows "\<exists>k<length bs. t \<in> set (bs ! k) \<and> mset (map Done (concat (take k bs))) \<subseteq># mset pre"
  using assms
proof (induction arbitrary: pre rule: runs.induct)
  case runs_end then show ?case by simp
next
  case (runs_throw b tr bs)
  then have "Start t \<in> set tr" by simp
  from batch_Start[OF runs_throw(1) this] show ?case by (intro exI[of _ 0]) simp
next
  case (runs_next b tr bs tr' ok)
  from runs_next.prems obtain us where
    "(tr = pre @ us \<and> us @ tr' = Start t # post) \<or> (tr @ us = pre \<and> tr' = us @ Start t # post)"
    by (auto simp: append_eq_append_conv2)
  then consider (here) us' where "tr = pre @ Start t # us'"
    | (later) us where "pre = tr @ us" "tr' = us @ Start t # post"
    by (cases us) auto
  then show ?case
  proof cases
    case here
    then have "Start t \<in> set tr" by simp
    from batch_Start[OF runs_next(1) this] show ?thesis by (intro exI[of _ 0]) simp
  next
    case later
    from runs_next.IH[OF later(2)] obtain k where k: "k < length bs" "t \<in> set (bs ! k)"
      "mset (map Done (concat (take k bs))) \<subseteq># mset us" by blast
    have "mset (map Done b) + mset (map Done (concat (take k bs))) \<subseteq># mset tr + mset us"
      using batch_True_Done[OF runs_next(1)] k(3) by (rule subset_mset.add_mono)
    then have "mset (map Done (concat (take (Suc k) (b # bs)))) \<subseteq># mset pre"
      using later(1) by simp
    with k(1,2) show ?thesis by (intro exI[of _ "Suc k"]) simp
  qed
qed

lemma filter_concat_all: "\<forall>b\<in>set R. \<forall>u\<in>set b. P u \<Longrightarrow> filter P (concat R) = concat R"
  by (induction R) simp_all

lemma filter_concat_none: "\<forall>b\<in>set R. \<forall>u\<in>set b. \<not> P u \<Longrightarrow> filter P (concat R) = []"
  by (induction R) simp_all

lemma phased_filters:
  assumes "phased R W L bs"
  shows "filter (\<lambda>u. phase_of u = Removing) (concat bs) = concat R"
    and "filter (\<lambda>u. phase_of u \<noteq> Linking) (concat bs) = concat R @ W"
proof -
  have W: "filter (\<lambda>u. phase_of u = Removing) W = []" "filter (\<lambda>u. phase_of u \<noteq> Linking) W = W"
    using assms by (auto simp: phased_def filter_empty_conv filter_id_conv)
  have L: "filter (\<lambda>u. phase_of u = Removing) L = []" "filter (\<lambda>u. phase_of u \<noteq> Linking) L = []"
    using assms by (auto simp: phased_def filter_empty_conv)
  have R: "filter (\<lambda>u. phase_of u = Removing) (concat R) = concat R"
    "filter (\<lambda>u. phase_of u \<noteq> Linking) (concat R) = concat R"
    using assms by (auto simp: phased_def intro!: filter_concat_all)
  from assms have bs: "bs = R @ [W, L]" by (simp add: phased_def)
  show "filter (\<lambda>u. phase_of u = Removing) (concat bs) = concat R"
    "filter (\<lambda>u. phase_of u \<noteq> Linking) (concat bs) = concat R @ W"
    using W L R by (simp_all add: bs)
qed

lemma phased_order:
  assumes "phased R W L bs" "runs bs tr ok" "tr = pre @ Start t # post"
  shows "(phase_of t = Writing \<longrightarrow>
            mset (map Done (filter (\<lambda>u. phase_of u = Removing) (concat bs))) \<subseteq># mset pre)
       \<and> (phase_of t = Linking \<longrightarrow>
            mset (map Done (filter (\<lambda>u. phase_of u \<noteq> Linking) (concat bs))) \<subseteq># mset pre)"
proof -
  from runs_order[OF assms(2,3)] obtain k where k: "k < length bs" "t \<in> set (bs ! k)"
    "mset (map Done (concat (take k bs))) \<subseteq># mset pre" by blast
  from assms(1) have bs: "bs = R @ [W, L]" by (simp add: phased_def)
  have inR: "phase_of t = Removing" if "k < length R"
  proof -
    from that have "bs ! k \<in> set R" by (simp add: bs nth_append)
    with k(2) assms(1) show ?thesis by (auto simp: phased_def)
  qed
  have inW: "phase_of t = Writing" if "k = length R"
    using that k(2) assms(1) by (auto simp: phased_def bs nth_append)
  have inL: "phase_of t = Linking" if "k = Suc (length R)"
    using that k(2) assms(1) by (auto simp: phased_def bs nth_append)
  have cases: "k < length R \<or> k = length R \<or> k = Suc (length R)"
    using k(1) by (auto simp: bs)
  show ?thesis
  proof (intro conjI impI)
    assume "phase_of t = Writing"
    with inR inL cases have "k = length R" by auto
    then have "take k bs = R" by (simp add: bs)
    with k(3) show "mset (map Done (filter (\<lambda>u. phase_of u = Removing) (concat bs))) \<subseteq># mset pre"
      by (simp add: phased_filters[OF assms(1)])
  next
    assume "phase_of t = Linking"
    with inR inW cases have "k = Suc (length R)" by auto
    then have "take k bs = R @ [W]" by (simp add: bs)
    with k(3) show "mset (map Done (filter (\<lambda>u. phase_of u \<noteq> Linking) (concat bs))) \<subseteq># mset pre"
      by (simp add: phased_filters[OF assms(1)])
  qed
qed

lemma phased_persistAllToFS:
  assumes "persistAllToFS h d = Inr bs"
  shows "phased (deletePathsFromFS h d) (persistFilesToFS h d) (persistSymlinksToFS h d) bs"
proof -
  from assms have bs: "bs = deletePathsFromFS h d @ [persistFilesToFS h d, persistSymlinksToFS h d]"
    by (simp add: persistAllToFS_def split: option.splits)
  have "\<forall>b\<in>set (deletePathsFromFS h d). \<forall>u\<in>set b. phase_of u = Removing"
    by (auto simp: deletePathsFromFS_def Let_def)
  then show ?thesis
    unfolding phased_def bs by (simp add: persistFilesToFS_def persistSymlinksToFS_def)
qed

lemma phased_persistAllToCapsule:
  assumes "persistAllToCapsule h d = Inr bs"
  shows "phased [map (\<lambda>p. CapsuleRemovePath (rpath (rems h p))) (remove d)]
           (map (\<lambda>f. CapsuleOutputFile (path (vinyls h f)) (contents (vinyls h f))) (files d))
           (map (\<lambda>s. CapsuleSymlink (src (links h s)) (dest (links h s))) (symlinks d)) bs"
  using assms by (auto simp: persistAllToCapsule_def phased_def)

text \<open>
  Claim C3. In every run of a commit, to the filesystem or to a capsule, when a write
  task starts every remove task of the commit has ended, and when a symlink task starts
  every remove task and every write task has ended (each as often as the commit holds
  it). A commit whose remove phase throws starts no write at all.
\<close>

theorem C3_phase_order:
  assumes "c = persistAllToFS h d \<or> c = persistAllToCapsule h d"
    and "commit_runs c tr" and "tr = pre @ Start t # post"
  shows "(phase_of t = Writing \<longrightarrow>
            mset (map Done (filter (\<lambda>u. phase_of u = Removing) (tasks_of c))) \<subseteq># mset pre)
       \<and> (phase_of t = Linking \<longrightarrow>
            mset (map Done (filter (\<lambda>u. phase_of u \<noteq> Linking) (tasks_of c))) \<subseteq># mset pre)"
proof (cases c)
  case (Inl e)
  with assms(2,3) show ?thesis by (simp add: commit_runs_def)
next
  case (Inr bs)
  with assms(2) obtain ok where r: "runs bs tr ok" by (auto simp: commit_runs_def)
  have "\<exists>R W L. phased R W L bs"
  proof (cases "c = persistAllToFS h d")
    case True
    with Inr phased_persistAllToFS[of h d bs] show ?thesis by auto
  next
    case False
    with assms(1) Inr phased_persistAllToCapsule[of h d bs] show ?thesis by auto
  qed
  then obtain R W L where "phased R W L bs" by blast
  from phased_order[OF this r assms(3)] Inr show ?thesis by (simp add: tasks_of_def)
qed

text \<open>
  Claim C3 at a commit to the filesystem that removes, writes and links \<open>/w/a\<close>: in
  its run the removal has ended when the write starts, and both when the link starts.
\<close>

theorem C3_phase_order_witness:
  "commit_runs (persistAllToFS store2 changes2)
     ([Start (RemovePathPersistToFS ''/w/a''), Done (RemovePathPersistToFS ''/w/a'')]
        @ Start (FileWrite ''/w/a'' ''v2'')
        # [Done (FileWrite ''/w/a'' ''v2''), Start (SymlinkWrite ''/w/a'' ''/w/l''),
           Done (SymlinkWrite ''/w/a'' ''/w/l'')])
   \<and> tasks_of (persistAllToFS store2 changes2)
       = [RemovePathPersistToFS ''/w/a'', FileWrite ''/w/a'' ''v2'', SymlinkWrite ''/w/a'' ''/w/l'']
   \<and> {#Done (RemovePathPersistToFS ''/w/a'')#}
       \<subseteq># mset [Start (RemovePathPersistToFS ''/w/a''), Done (RemovePathPersistToFS ''/w/a'')]
   \<and> {#Done (RemovePathPersistToFS ''/w/a''), Done (FileWrite ''/w/a'' ''v2'')#}
       \<subseteq># mset [Start (RemovePathPersistToFS ''/w/a''), Done (RemovePathPersistToFS ''/w/a''),
                 Start (FileWrite ''/w/a'' ''v2''), Done (FileWrite ''/w/a'' ''v2'')]"
proof -
  let ?r = "RemovePathPersistToFS ''/w/a''"
  let ?w = "FileWrite ''/w/a'' ''v2''"
  let ?l = "SymlinkWrite ''/w/a'' ''/w/l''"
  let ?c = "persistAllToFS store2 changes2"
  have abs: "isAbsolute ''/w/a''" "isAbsolute ''/w/l''" by (simp_all add: isAbsolute_def path_sep_def)
  have c: "?c = Inr [[?r], [?w], [?l]]"
    using abs by (simp add: persistAllToFS_def validate_def validateAbsolutePath_def store2_def
        changes2_def deletePathsFromFS_def persistFilesToFS_def persistSymlinksToFS_def)
  have br: "batch [?r] [Start ?r, Done ?r] True" using batch_done[of "[Done ?r]" "[?r]"] by simp
  have bw: "batch [?w] [Start ?w, Done ?w] True" using batch_done[of "[Done ?w]" "[?w]"] by simp
  have bl: "batch [?l] [Start ?l, Done ?l] True" using batch_done[of "[Done ?l]" "[?l]"] by simp
  have "runs [[?l]] [Start ?l, Done ?l] True" using runs_next[OF bl runs_end] by simp
  from runs_next[OF bw this] have "runs [[?w], [?l]] [Start ?w, Done ?w, Start ?l, Done ?l] True"
    by simp
  from runs_next[OF br this]
  have r: "runs [[?r], [?w], [?l]] [Start ?r, Done ?r, Start ?w, Done ?w, Start ?l, Done ?l] True"
    by simp
  then have cr: "commit_runs ?c ([Start ?r, Done ?r] @ Start ?w # [Done ?w, Start ?l, Done ?l])"
    by (simp add: commit_runs_def c)
  then have cr': "commit_runs ?c ([Start ?r, Done ?r, Start ?w, Done ?w] @ Start ?l # [Done ?l])"
    by simp
  have t: "tasks_of ?c = [?r, ?w, ?l]" by (simp add: tasks_of_def c)
  from C3_phase_order[OF _ cr refl, of store2 changes2]
  have 1: "{#Done ?r#} \<subseteq># mset [Start ?r, Done ?r]" by (simp add: t)
  from C3_phase_order[OF _ cr' refl, of store2 changes2]
  have 2: "{#Done ?r, Done ?w#} \<subseteq># mset [Start ?r, Done ?r, Start ?w, Done ?w]" by (simp add: t)
  from cr t 1 2 show ?thesis by simp
qed

section \<open>Properties of addAction\<close>

subsection \<open>Resolving the paths\<close>

lemma obj_set_keys: "fst ` set (obj_set k v kvs) = insert k (fst ` set kvs)"
  by (induction k v kvs rule: obj_set.induct) auto

lemma obj_set_values:
  "\<forall>kv\<in>set kvs. snd kv = g (fst kv) \<Longrightarrow> v = g k \<Longrightarrow> \<forall>kv\<in>set (obj_set k v kvs). snd kv = g (fst kv)"
  by (induction k v kvs rule: obj_set.induct) auto

lemma foldl_obj_set:
  "fst ` set (foldl (\<lambda>stats p. obj_set p (g p) stats) acc ps) = fst ` set acc \<union> set ps"
  "\<forall>kv\<in>set acc. snd kv = g (fst kv)
     \<Longrightarrow> \<forall>kv\<in>set (foldl (\<lambda>stats p. obj_set p (g p) stats) acc ps). snd kv = g (fst kv)"
proof (induction ps arbitrary: acc)
  case Nil
  { case 1 show ?case by simp }
  { case 2 then show ?case by simp }
next
  case (Cons p ps)
  { case 1 show ?case using Cons.IH(1)[of "obj_set p (g p) acc"] by (simp add: obj_set_keys) }
  { case 2
    then have "\<forall>kv\<in>set (obj_set p (g p) acc). snd kv = g (fst kv)"
      by (intro obj_set_values) simp_all
    from Cons.IH(2)[OF this] show ?case by simp }
qed

lemma validatePaths_exist:
  assumes "\<forall>p\<in>set ps. existsSync e p"
  shows "\<exists>stats. validatePaths e ps = Inr stats \<and> fst ` set stats = set ps
           \<and> (\<forall>s\<in>set stats. snd s = isDir e (fst s))"
proof -
  have "find (\<lambda>componentPath. \<not> existsSync e componentPath) ps = None"
    using assms by (simp add: find_None_iff)
  then have "validatePaths e ps
               = Inr (foldl (\<lambda>stats componentPath. obj_set componentPath (isDir e componentPath) stats) [] ps)"
    by (simp add: validatePaths_def)
  then show ?thesis
    using foldl_obj_set(1)[of "isDir e" "[]" ps] foldl_obj_set(2)[of "[]" "isDir e" ps] by simp
qed

text \<open>
  Claim C9, as the code has it. The test is on what the component paths resolve to before
  the ignore filter. When no supplied test file is missing, the caller supplied test
  patterns and an id, and the component paths resolve to nothing, \<open>componentPathsStats\<close>
  is what \<open>validatePaths\<close> makes of the matches of the test patterns: the matches
  themselves when they all exist, and not the path-not-exists error for the component
  paths. When the component paths resolve to entries that are all ignored, the no-files
  error is thrown, with or without test patterns and id.
\<close>

theorem C9_tests_fallback:
  "(getMissingTestFiles e tests = [] \<and> tests \<noteq> [] \<and> id' \<noteq> []
      \<and> concat (map (glob e) componentPaths) = []
    \<longrightarrow> resolveComponentPaths e componentPaths id' tests
          = validatePaths e (concat (map (glob e) tests))
        \<and> ((\<forall>p\<in>set (concat (map (glob e) tests)). existsSync e p)
           \<longrightarrow> (\<exists>stats. resolveComponentPaths e componentPaths id' tests = Inr stats
                  \<and> fst ` set stats = set (concat (map (glob e) tests))
                  \<and> (\<forall>s\<in>set stats. snd s = isDir e (fst s)))))
   \<and> (getMissingTestFiles e tests = [] \<and> concat (map (glob e) componentPaths) \<noteq> []
        \<and> (\<forall>p\<in>set (concat (map (glob e) componentPaths)). ignored e p)
      \<longrightarrow> resolveComponentPaths e componentPaths id' tests
            = Inl (NoFiles (arrayDiff [] (concat (map (glob e) componentPaths)))))"
proof (intro conjI impI)
  assume a: "getMissingTestFiles e tests = [] \<and> tests \<noteq> [] \<and> id' \<noteq> []
      \<and> concat (map (glob e) componentPaths) = []"
  then show eq: "resolveComponentPaths e componentPaths id' tests
          = validatePaths e (concat (map (glob e) tests))"
    by (simp add: resolveComponentPaths_def Let_def)
  assume "\<forall>p\<in>set (concat (map (glob e) tests)). existsSync e p"
  from validatePaths_exist[OF this] eq
  show "\<exists>stats. resolveComponentPaths e componentPaths id' tests = Inr stats
                  \<and> fst ` set stats = set (concat (map (glob e) tests))
                  \<and> (\<forall>s\<in>set stats. snd s = isDir e (fst s))" by simp
next
  assume a: "getMissingTestFiles e tests = [] \<and> concat (map (glob e) componentPaths) \<noteq> []
        \<and> (\<forall>p\<in>set (concat (map (glob e) componentPaths)). ignored e p)"
  then have "filter (\<lambda>p. \<not> ignored e p) (concat (map (glob e) componentPaths)) = []"
    by (simp add: filter_empty_conv)
  with a show "resolveComponentPaths e componentPaths id' tests
            = Inl (NoFiles (arrayDiff [] (concat (map (glob e) componentPaths))))"
    unfolding resolveComponentPaths_def Let_def
    by (simp del: concat_eq_Nil_conv Nil_eq_concat_conv)
qed

lemma sample_env_simps:
  "glob sample_env = sample_glob"
  "ignored sample_env = (\<lambda>p. prefix ''dist/'' p)"
  "existsSync sample_env = (\<lambda>p. sample_glob p \<noteq> [])"
  "isDir sample_env = (\<lambda>p. p = ''src/utils/is-string'')"
  "getMissingTestFiles sample_env = (\<lambda>ts. filter (\<lambda>t. sample_glob t = []) ts)"
  by (simp_all add: sample_env_def)

text \<open>
  Claim C9 at component paths that match nothing, and at a component path whose only
  match is ignored.
\<close>

theorem C9_tests_fallback_witness:
  "resolveComponentPaths sample_env [''nothing/*.js''] ''utils/a'' [''test/a.spec.js'']
     = Inr [(''test/a.spec.js'', False)]
   \<and> resolveComponentPaths sample_env [''dist/a.js''] [] []
     = Inl (NoFiles [''dist/a.js''])"
proof -
  let ?e = sample_env
  have g: "concat (map (glob ?e) [''nothing/*.js'']) = []"
    "concat (map (glob ?e) [''test/a.spec.js'']) = [''test/a.spec.js'']"
    "concat (map (glob ?e) [''dist/a.js'']) = [''dist/a.js'']"
    by (simp_all add: sample_env_simps sample_glob_def)
  have m: "getMissingTestFiles ?e [''test/a.spec.js''] = []" "getMissingTestFiles ?e [] = []"
    by (simp_all add: sample_env_simps sample_glob_def)
  have h1: "getMissingTestFiles ?e [''test/a.spec.js''] = [] \<and> [''test/a.spec.js''] \<noteq> []
      \<and> ''utils/a'' \<noteq> [] \<and> concat (map (glob ?e) [''nothing/*.js'']) = []"
    using g m by simp
  have h2: "getMissingTestFiles ?e [] = [] \<and> concat (map (glob ?e) [''dist/a.js'']) \<noteq> []
        \<and> (\<forall>p\<in>set (concat (map (glob ?e) [''dist/a.js''])). ignored ?e p)"
    using m(2) g(3) by (simp add: sample_env_simps sample_glob_def)
  from C9_tests_fallback[of ?e "[''test/a.spec.js'']" "''utils/a''" "[''nothing/*.js'']"] h1
  have "resolveComponentPaths ?e [''nothing/*.js''] ''utils/a'' [''test/a.spec.js'']
          = validatePaths ?e (concat (map (glob ?e) [''test/a.spec.js'']))" by blast
  then have 1: "resolveComponentPaths ?e [''nothing/*.js''] ''utils/a'' [''test/a.spec.js'']
     = Inr [(''test/a.spec.js'', False)]"
    by (simp add: g validatePaths_def sample_env_simps sample_glob_def)
  from C9_tests_fallback[of ?e "[]" "[]" "[''dist/a.js'']"] h2
  have "resolveComponentPaths ?e [''dist/a.js''] [] []
            = Inl (NoFiles (arrayDiff [] (concat (map (glob ?e) [''dist/a.js'']))))" by blast
  then have 2: "resolveComponentPaths ?e [''dist/a.js''] [] [] = Inl (NoFiles [''dist/a.js''])"
    by (simp add: arrayDiff_def sample_env_simps sample_glob_def)
  from 1 2 show ?thesis by simp
qed

text \<open>
  Claim C9 as stated fails: with test patterns and an id, a component path whose only
  match is ignored resolves to nothing after the ignore filter, and the call throws the
  no-files error instead of falling back to the test files.
\<close>

theorem C9_tests_fallback_counterexample:
  "filter (\<lambda>p. \<not> ignored sample_env p) (concat (map (glob sample_env) [''dist/a.js''])) = []
   \<and> getMissingTestFiles sample_env [''test/a.spec.js''] = []
   \<and> resolveComponentPaths sample_env [''dist/a.js''] ''utils/a'' [''test/a.spec.js'']
       = Inl (NoFiles [''dist/a.js''])"
  by (simp add: resolveComponentPaths_def sample_env_simps sample_glob_def arrayDiff_def)

subsection \<open>Duplicate ids\<close>

lemma groupBy_mem:
  "x \<in> set xs \<Longrightarrow> (f x, filter (\<lambda>y. f y = f x) xs) \<in> set (groupBy f xs)"
proof (induction f xs rule: groupBy.induct)
  case (1 f) then show ?case by simp
next
  case (2 f x0 xs)
  show ?case
  proof (cases "f x = f x0")
    case True then show ?thesis by simp
  next
    case False
    with "2.prems" have "x \<in> set (filter (\<lambda>y. f y \<noteq> f x0) xs)" by auto
    from "2.IH"[OF this]
    have "(f x, filter (\<lambda>y. f y = f x) (filter (\<lambda>y. f y \<noteq> f x0) xs))
            \<in> set (groupBy f (filter (\<lambda>y. f y \<noteq> f x0) xs))" .
    moreover have "filter (\<lambda>y. f y = f x) (filter (\<lambda>y. f y \<noteq> f x0) xs) = filter (\<lambda>y. f y = f x) xs"
      using False by (auto intro: filter_cong)
    ultimately show ?thesis using False by simp
  qed
qed

lemma two_in_filter:
  assumes "i < j" "j < length xs" "f (xs ! i) = f (xs ! j)"
  shows "1 < length (filter (\<lambda>y. f y = f (xs ! i)) xs)"
proof -
  have xs: "xs = take j xs @ xs ! j # drop (Suc j) xs"
    using assms(2) by (rule id_take_nth_drop)
  have "xs ! i \<in> set (take j xs)"
    using assms(1,2) by (metis in_set_conv_nth length_take min.absorb2 nth_take less_imp_le)
  then have "filter (\<lambda>y. f y = f (xs ! i)) (take j xs) \<noteq> []"
    by (auto simp: filter_empty_conv)
  then have "0 < length (filter (\<lambda>y. f y = f (xs ! i)) (take j xs))" by simp
  moreover have "length (filter (\<lambda>y. f y = f (xs ! i)) xs)
      = length (filter (\<lambda>y. f y = f (xs ! i)) (take j xs))
        + length (filter (\<lambda>y. f y = f (xs ! i)) (xs ! j # drop (Suc j) xs))"
    by (subst xs) simp
  ultimately show ?thesis using assms(3) by simp
qed

lemma validateNoDuplicateIds_duplicate:
  assumes "i < j" "j < length cs" "componentId (cs ! i) = componentId (cs ! j)"
  shows "validateNoDuplicateIds cs
           = Some (DuplicateIds (filter (\<lambda>g. length (snd g) > 1) (groupBy componentId cs)))"
    and "(componentId (cs ! i), filter (\<lambda>c. componentId c = componentId (cs ! i)) cs)
           \<in> set (filter (\<lambda>g. length (snd g) > 1) (groupBy componentId cs))"
proof -
  have "cs ! i \<in> set cs" using assms(1,2) by simp
  from groupBy_mem[OF this, of componentId] two_in_filter[OF assms, of ]
  show m: "(componentId (cs ! i), filter (\<lambda>c. componentId c = componentId (cs ! i)) cs)
           \<in> set (filter (\<lambda>g. length (snd g) > 1) (groupBy componentId cs))" by simp
  then have "filter (\<lambda>g. length (snd g) > 1) (groupBy componentId cs) \<noteq> []"
    by (metis empty_iff list.set(1))
  then show "validateNoDuplicateIds cs
           = Some (DuplicateIds (filter (\<lambda>g. length (snd g) > 1) (groupBy componentId cs)))"
    by (simp add: validateNoDuplicateIds_def Let_def)
qed

lemma groupBy_distinct:
  "distinct (map f xs) \<Longrightarrow> filter (\<lambda>g. length (snd g) > 1) (groupBy f xs) = []"
proof (induction f xs rule: groupBy.induct)
  case (1 f) show ?case by simp
next
  case (2 f x xs)
  from "2.prems" have "f x \<notin> f ` set xs" by simp
  then have nx: "\<forall>y\<in>set xs. f y \<noteq> f x" by (metis imageI)
  then have same: "filter (\<lambda>y. f y = f x) xs = []" by (simp add: filter_empty_conv)
  from nx have rest: "filter (\<lambda>y. f y \<noteq> f x) xs = xs" by (simp add: filter_id_conv)
  from "2.prems" have "distinct (map f xs)" by simp
  with "2.IH" rest have "filter (\<lambda>g. length (snd g) > 1) (groupBy f xs) = []" by simp
  with same rest show ?case by simp
qed

lemma validateNoDuplicateIds_distinct:
  "distinct (map componentId cs) \<Longrightarrow> validateNoDuplicateIds cs = None"
  using groupBy_distinct[of componentId cs] by (simp add: validateNoDuplicateIds_def Let_def)

text \<open>
  Claim C7, as the code has it. Several components are built only when several paths
  come without an id, and the ids compared are those that the components carry when
  they have all been built, before any of them is reconciled with the bitmap. When two
  of them have the same id, \<open>addAction\<close> throws the duplicate-ids error, whose groups
  name that id with both components under it; it has not touched the bitmap and has not
  written it. When the ids all differ, the check lets the components through, and the
  outcome is that of reconciling them one after the other, under whatever ids the
  reconciliation gives them.
\<close>

theorem C7_duplicate_ids:
  assumes "resolveComponentPaths e componentPaths [] tests = Inr stats" and "length stats > 1"
    and "build_components e bitMap main namespace tests exclude
           (paths_without_tests e tests stats) = Inr cs"
  shows "(\<forall>i j. i < j \<and> j < length cs \<and> componentId (cs ! i) = componentId (cs ! j) \<longrightarrow>
            (\<exists>dups group.
               addAction e bitMap componentPaths [] main namespace tests exclude ov
                 = Failed (DuplicateIds dups) bitMap
             \<and> (componentId (cs ! i), group) \<in> set dups
             \<and> cs ! i \<in> set group \<and> cs ! j \<in> set group
             \<and> persisted (addAction e bitMap componentPaths [] main namespace tests exclude ov)
                 = None))
       \<and> (distinct (map componentId cs) \<longrightarrow>
            addAction e bitMap componentPaths [] main namespace tests exclude ov
              = write_all (forEach (reconcile_component e [] ov) cs (bitMap, [], [])))"
proof (intro conjI allI impI)
  fix i j
  assume ij: "i < j \<and> j < length cs \<and> componentId (cs ! i) = componentId (cs ! j)"
  let ?dups = "filter (\<lambda>g. length (snd g) > 1) (groupBy componentId cs)"
  let ?group = "filter (\<lambda>c. componentId c = componentId (cs ! i)) cs"
  from ij have 1: "i < j" and 2: "j < length cs"
    and 3: "componentId (cs ! i) = componentId (cs ! j)" by simp_all
  note v = validateNoDuplicateIds_duplicate[OF 1 2 3]
  have a: "addAction e bitMap componentPaths [] main namespace tests exclude ov
             = Failed (DuplicateIds ?dups) bitMap"
    using assms v(1) by (simp add: addAction_def add_multiple_def)
  have "cs ! i \<in> set ?group" "cs ! j \<in> set ?group"
    using 1 2 3 by simp_all
  with a v(2) show "\<exists>dups group.
               addAction e bitMap componentPaths [] main namespace tests exclude ov
                 = Failed (DuplicateIds dups) bitMap
             \<and> (componentId (cs ! i), group) \<in> set dups
             \<and> cs ! i \<in> set group \<and> cs ! j \<in> set group
             \<and> persisted (addAction e bitMap componentPaths [] main namespace tests exclude ov)
                 = None"
    by (intro exI[of _ ?dups] exI[of _ ?group]) simp
next
  assume "distinct (map componentId cs)"
  from validateNoDuplicateIds_distinct[OF this] assms
  show "addAction e bitMap componentPaths [] main namespace tests exclude ov
          = write_all (forEach (reconcile_component e [] ov) cs (bitMap, [], []))"
    by (simp add: addAction_def add_multiple_def)
qed

text \<open>
  Claim C7 at the files \<open>src/a.js\<close> and \<open>lib/a.js\<close>: added under the namespace \<open>ns\<close>
  they are both built as \<open>ns/a\<close> and refused; added without a namespace they are built
  as \<open>src/a\<close> and \<open>lib/a\<close> and both tracked.
\<close>

theorem C7_duplicate_ids_witness:
  "(\<exists>dups group.
      addAction sample_env sample_bitmap [''src/a.js'', ''lib/a.js''] [] [] ''ns'' [] None False
        = Failed (DuplicateIds dups) sample_bitmap
      \<and> (''ns/a'', group) \<in> set dups
      \<and> \<lparr>componentId = ''ns/a'',
          cfiles = [\<lparr>relativePath = ''src/a.js'', test = False, name = ''a.js''\<rparr>],
          mainFile = []\<rparr> \<in> set group
      \<and> \<lparr>componentId = ''ns/a'',
          cfiles = [\<lparr>relativePath = ''lib/a.js'', test = False, name = ''a.js''\<rparr>],
          mainFile = []\<rparr> \<in> set group)
   \<and> persisted (addAction sample_env sample_bitmap [''src/a.js'', ''lib/a.js''] [] [] ''ns'' []
                  None False) = None
   \<and> addAction sample_env sample_bitmap [''src/a.js'', ''lib/a.js''] [] [] [] [] None False
       = Written
           (sample_bitmap @
              [(''lib/a'',
                \<lparr>cm_files = [\<lparr>relativePath = ''lib/a.js'', test = False, name = ''a.js''\<rparr>],
                   cm_mainFile = [], cm_origin = AUTHORED, cm_rootDir = []\<rparr>)])
           [\<lparr>added_id = ''src/a'',
               added_files = [\<lparr>relativePath = ''src/a.js'', test = False, name = ''a.js''\<rparr>]\<rparr>,
            \<lparr>added_id = ''lib/a'',
               added_files = [\<lparr>relativePath = ''lib/a.js'', test = False, name = ''a.js''\<rparr>]\<rparr>]
           []"
proof -
  let ?stats = "[(''src/a.js'', False), (''lib/a.js'', False)]"
  let ?c1 = "\<lparr>componentId = ''ns/a'',
          cfiles = [\<lparr>relativePath = ''src/a.js'', test = False, name = ''a.js''\<rparr>],
          mainFile = []\<rparr>"
  let ?c2 = "\<lparr>componentId = ''ns/a'',
          cfiles = [\<lparr>relativePath = ''lib/a.js'', test = False, name = ''a.js''\<rparr>],
          mainFile = []\<rparr>"
  let ?d1 = "\<lparr>componentId = ''src/a'',
          cfiles = [\<lparr>relativePath = ''src/a.js'', test = False, name = ''a.js''\<rparr>],
          mainFile = []\<rparr>"
  let ?d2 = "\<lparr>componentId = ''lib/a'',
          cfiles = [\<lparr>relativePath = ''lib/a.js'', test = False, name = ''a.js''\<rparr>],
          mainFile = []\<rparr>"
  have r: "resolveComponentPaths sample_env [''src/a.js'', ''lib/a.js''] [] [] = Inr ?stats"
    by code_simp
  have l: "length ?stats > 1" by simp
  have b: "build_components sample_env sample_bitmap [] ''ns'' [] None
             (paths_without_tests sample_env [] ?stats) = Inr [?c1, ?c2]"
    by code_simp
  have b': "build_components sample_env sample_bitmap [] [] [] None
             (paths_without_tests sample_env [] ?stats) = Inr [?d1, ?d2]"
    by code_simp
  have ij: "(0::nat) < 1 \<and> 1 < length [?c1, ?c2]
             \<and> componentId ([?c1, ?c2] ! 0) = componentId ([?c1, ?c2] ! 1)"
    by simp
  have d: "distinct (map componentId [?d1, ?d2])" by simp
  from C7_duplicate_ids[OF r l b, of False, THEN conjunct1, rule_format, OF ij]
  obtain dups group where
    "addAction sample_env sample_bitmap [''src/a.js'', ''lib/a.js''] [] [] ''ns'' [] None False
        = Failed (DuplicateIds dups) sample_bitmap"
    "(''ns/a'', group) \<in> set dups" "?c1 \<in> set group" "?c2 \<in> set group"
    "persisted (addAction sample_env sample_bitmap [''src/a.js'', ''lib/a.js''] [] [] ''ns'' []
                  None False) = None"
    by auto
  then have 1: "(\<exists>dups group.
      addAction sample_env sample_bitmap [''src/a.js'', ''lib/a.js''] [] [] ''ns'' [] None False
        = Failed (DuplicateIds dups) sample_bitmap
      \<and> (''ns/a'', group) \<in> set dups \<and> ?c1 \<in> set group \<and> ?c2 \<in> set group)
   \<and> persisted (addAction sample_env sample_bitmap [''src/a.js'', ''lib/a.js''] [] [] ''ns'' []
                  None False) = None" by blast
  have w: "write_all (forEach (reconcile_component sample_env [] False) [?d1, ?d2]
                        (sample_bitmap, [], []))
       = Written
           (sample_bitmap @
              [(''lib/a'',
                \<lparr>cm_files = [\<lparr>relativePath = ''lib/a.js'', test = False, name = ''a.js''\<rparr>],
                   cm_mainFile = [], cm_origin = AUTHORED, cm_rootDir = []\<rparr>)])
           [\<lparr>added_id = ''src/a'',
               added_files = [\<lparr>relativePath = ''src/a.js'', test = False, name = ''a.js''\<rparr>]\<rparr>,
            \<lparr>added_id = ''lib/a'',
               added_files = [\<lparr>relativePath = ''lib/a.js'', test = False, name = ''a.js''\<rparr>]\<rparr>]
           []"
    by code_simp
  from C7_duplicate_ids[OF r l b', of False, THEN conjunct2, rule_format, OF d] w
  have 2: "addAction sample_env sample_bitmap [''src/a.js'', ''lib/a.js''] [] [] [] [] None False
       = Written
           (sample_bitmap @
              [(''lib/a'',
                \<lparr>cm_files = [\<lparr>relativePath = ''lib/a.js'', test = False, name = ''a.js''\<rparr>],
                   cm_mainFile = [], cm_origin = AUTHORED, cm_rootDir = []\<rparr>)])
           [\<lparr>added_id = ''src/a'',
               added_files = [\<lparr>relativePath = ''src/a.js'', test = False, name = ''a.js''\<rparr>]\<rparr>,
            \<lparr>added_id = ''lib/a'',
               added_files = [\<lparr>relativePath = ''lib/a.js'', test = False, name = ''a.js''\<rparr>]\<rparr>]
           []"
    by simp
  from 1 2 show ?thesis by blast
qed

text \<open>
  Claim C7 as stated fails. In the bitmap where \<open>src/a\<close> tracks both
  \<open>src/a.js\<close> and \<open>lib/a.js\<close>, adding the two files without an id builds the components
  \<open>src/a\<close> and \<open>lib/a\<close>, which the check lets through; the reconciliation then files
  both under \<open>src/a\<close>, the component that tracks their files, and the bitmap is written
  with two added components of that one id.
\<close>

theorem C7_duplicate_ids_counterexample:
  "build_components sample_env sample_bitmap_shared [] [] [] None
     (paths_without_tests sample_env [] [(''src/a.js'', False), (''lib/a.js'', False)])
     = Inr [\<lparr>componentId = ''src/a'',
              cfiles = [\<lparr>relativePath = ''src/a.js'', test = False, name = ''a.js''\<rparr>],
              mainFile = []\<rparr>,
            \<lparr>componentId = ''lib/a'',
              cfiles = [\<lparr>relativePath = ''lib/a.js'', test = False, name = ''a.js''\<rparr>],
              mainFile = []\<rparr>]
   \<and> addAction sample_env sample_bitmap_shared [''src/a.js'', ''lib/a.js''] [] [] [] [] None False
       = Written sample_bitmap_shared
           [\<lparr>added_id = ''src/a'',
               added_files = [\<lparr>relativePath = ''src/a.js'', test = False, name = ''a.js''\<rparr>,
                              \<lparr>relativePath = ''lib/a.js'', test = False, name = ''a.js''\<rparr>]\<rparr>,
            \<lparr>added_id = ''src/a'',
               added_files = [\<lparr>relativePath = ''src/a.js'', test = False, name = ''a.js''\<rparr>,
                              \<lparr>relativePath = ''lib/a.js'', test = False, name = ''a.js''\<rparr>]\<rparr>]
           []"
  by code_simp

subsection \<open>Files of an imported component\<close>












subsection \<open>Nested components\<close>

lemma updateId_nested:
  assumes "getExistingComponentId e bitMap i = Some ex" "ex \<noteq> []"
    "getComponent e bitMap ex False = Some k" "map_of bitMap k = Some c" "cm_origin c = NESTED"
  shows "updateIdAccordingToExistingComponent e bitMap i = Inl (NestedDependency ex)"
  using assms by (simp add: updateIdAccordingToExistingComponent_def)

text \<open>
  Where the id is looked up, a nested component is refused: with a supplied id, and for
  a single file path without one, \<open>addAction\<close> throws the error that names the existing
  component, and has neither changed nor written the bitmap.
\<close>

lemma nested_id_refused:
  assumes "resolveComponentPaths e componentPaths id' tests = Inr stats"
    and "getExistingComponentId e bitMap i = Some ex" "ex \<noteq> []"
    and "getComponent e bitMap ex False = Some k" "map_of bitMap k = Some c" "cm_origin c = NESTED"
    and "(id' \<noteq> [] \<and> i = id') \<or> (id' = [] \<and> (\<exists>p. stats = [(p, False)] \<and> i = idFromFile e namespace p))"
  shows "addAction e bitMap componentPaths id' main namespace tests exclude ov
           = Failed (NestedDependency ex) bitMap"
proof -
  note u = updateId_nested[OF assms(2-6)]
  from assms(7) show ?thesis
  proof
    assume a: "id' \<noteq> [] \<and> i = id'"
    then have "addOneComponent e bitMap id' main namespace tests exclude stats
                 = Inl (NestedDependency ex)"
      using u by (simp add: addOneComponent_def addOneComponent_started_def)
    with a assms(1) show ?thesis by (simp add: addAction_def add_one_def)
  next
    assume a: "id' = [] \<and> (\<exists>p. stats = [(p, False)] \<and> i = idFromFile e namespace p)"
    then obtain p where p: "stats = [(p, False)]" "i = idFromFile e namespace p" by blast
    have "addOneComponent e bitMap id' main namespace tests exclude stats
                 = Inl (NestedDependency ex)"
      using a p u by (simp add: addOneComponent_def addOneComponent_started_def path_started_def)
    with a p assms(1) show ?thesis by (simp add: addAction_def add_one_def)
  qed
qed

text \<open>A directory path without an id is not looked up at all.\<close>

lemma directory_not_looked_up:
  "addOneComponent_started e bitMap [] namespace [(p, True)] = (None, None)"
  by (simp add: addOneComponent_started_def path_started_def)

text \<open>
  Claim C5 fails for a directory. In the sample project the file
  \<open>src/utils/is-string.js\<close> and the directory \<open>src/utils/is-string\<close> both give the id
  \<open>utils/is-string\<close>, which the bitmap resolves to a nested component. Adding the file
  throws the error that names the nested component. Adding the directory does not: the
  nested entry is met only when the files are reconciled, where nothing tests the origin,
  and the call throws the missing-id error of an imported component.
\<close>

theorem C5_directory_not_checked:
  "idFromFile sample_env [] ''src/utils/is-string.js'' = ''utils/is-string''
   \<and> idFromDirectory sample_env [] ''src/utils/is-string'' = ''utils/is-string''
   \<and> getExistingComponentId sample_env sample_bitmap ''utils/is-string''
       = Some ''scope/utils/is-string@0.0.1''
   \<and> map_option cm_origin (map_of sample_bitmap ''scope/utils/is-string@0.0.1'') = Some NESTED
   \<and> addAction sample_env sample_bitmap [''src/utils/is-string.js''] [] [] [] [] None False
       = Failed (NestedDependency ''scope/utils/is-string@0.0.1'') sample_bitmap
   \<and> addAction sample_env sample_bitmap [''src/utils/is-string''] [] [] [] [] None False
       = Failed (MissingComponentIdForImportedComponent ''utils/is-string'') sample_bitmap"
  by code_simp

end
